theory Spec2Isabelle
  imports Complex_Main "HOL-Library.Log_Nat"
begin

section \<open>Eye width measurement: scopeprotocols/EyeWidthMeasurement.cpp\<close>

text \<open>
  The filter reads a two-dimensional eye raster and two threshold voltages and publishes,
  for every raster row between the thresholds, the width of the eye opening, plus one
  scalar for the whole band.

  Numbers. A value of the C++ types \<open>float\<close> and \<open>double\<close> is modelled by the real number
  it denotes, and every floating operation of the source by the exact operation followed by
  rounding to the nearest value of the format (24 significant bits for \<open>float\<close>, 53 for
  \<open>double\<close>, ties to even), in the format in which C++ evaluates the operation. The range
  of the exponent is not modelled: overflow to infinity, subnormal numbers and NaN are
  outside the model, and the compiler is taken not to fuse a multiplication with an
  addition. Where the source would divide by zero the model stops with an error.
  The integer types \<open>size_t\<close> and \<open>int64_t\<close> are modelled by \<open>nat\<close> and \<open>int\<close>; each
  conversion from a floating value to an integer type whose result the C++ standard leaves
  undefined (the value does not fit the destination type) is an error branch, and so is
  the one signed subtraction that can overflow. A read beyond the end of the raster's buffer
  is undefined as well and is an error branch too.
\<close>

subsection \<open>Streams and input validation\<close>

text \<open>
  The stream kinds this file names. The enumeration itself is declared elsewhere in the
  library; \<open>STREAM_TYPE_UNDEFINED\<close> stands for every other kind.
\<close>

datatype StreamType =
    STREAM_TYPE_ANALOG
  | STREAM_TYPE_ANALOG_SCALAR
  | STREAM_TYPE_EYE
  | STREAM_TYPE_UNDEFINED

text \<open>A stream descriptor: a pointer to the owning channel (\<open>None\<close> is \<open>NULL\<close>) and a stream index.\<close>

record 'c StreamDescriptor =
  m_channel :: "'c option"
  m_stream :: nat

text \<open>
  \<open>EyeWidthMeasurement::ValidateChannel\<close>. \<open>StreamDescriptor::GetType\<close> is declared
  outside this file and is taken as a parameter.
\<close>

definition ValidateChannel ::
    "('c StreamDescriptor \<Rightarrow> StreamType) \<Rightarrow> nat \<Rightarrow> 'c StreamDescriptor \<Rightarrow> bool" where
  "ValidateChannel GetType i stream =
     (if m_channel stream = None then False
      else if i = 0 \<and> GetType stream = STREAM_TYPE_EYE then True
      else False)"

subsection \<open>Waveforms and the filter\<close>

text \<open>
  The eye raster: \<open>GetHeight\<close> rows of \<open>GetWidth\<close> columns, stored row by row in
  \<open>GetData\<close>, with the unit-interval width and the centre voltage as metadata.
\<close>

record EyeWaveform =
  GetWidth :: nat
  GetHeight :: nat
  GetData :: "real list"
  m_uiWidth :: real
  GetCenterVoltage :: real

text \<open>
  What \<open>m_inputs[0]\<close> refers to: the producing stream's voltage range and its current
  waveform (\<open>None\<close> when the producer has no data).
\<close>

record InputStream =
  GetVoltageRange :: real
  GetInputWaveform :: "EyeWaveform option"

text \<open>The sparse output waveform: three parallel sequences.\<close>

record SparseAnalogWaveform =
  m_timescale :: int
  m_offsets :: "int list"
  m_durations :: "int list"
  m_samples :: "real list"

text \<open>The scalar output is a floating value that may be NaN.\<close>

datatype scalar = NaN | Finite real

text \<open>
  The filter node: its one input (\<open>None\<close> when unbound), its two parameters, the waveform
  of stream 0 (\<open>None\<close> is \<open>nullptr\<close>) and the scalar value of stream 1.
\<close>

record EyeWidthMeasurement =
  m_input0 :: "InputStream option"
  m_startVoltage :: real
  m_endVoltage :: real
  m_data0 :: "SparseAnalogWaveform option"
  m_value1 :: scalar

datatype error =
    UndefinedConversion
  | SignedOverflow
  | NonFiniteFloat
  | NullDereference
  | OutOfBounds

text \<open>
  Modelled from the spec: \<open>VerifyAllInputsOK\<close> is a method of the filter base class, which
  is not part of this file. The spec gives its meaning: all declared inputs are bound and
  each upstream node's last recompute succeeded (it has data).
\<close>

definition VerifyAllInputsOK :: "EyeWidthMeasurement \<Rightarrow> bool" where
  "VerifyAllInputsOK f =
     (case m_input0 f of
        None \<Rightarrow> False
      | Some s \<Rightarrow> (case GetInputWaveform s of None \<Rightarrow> False | Some din \<Rightarrow> True))"

text \<open>
  Modelled from the spec: \<open>SetupEmptySparseAnalogOutputWaveform\<close> is a method of the
  filter base class. A sparse output clears and rebuilds its offset, duration and value
  sequences on every recompute.
\<close>

definition SetupEmptySparseAnalogOutputWaveform :: SparseAnalogWaveform where
  "SetupEmptySparseAnalogOutputWaveform =
     \<lparr>m_timescale = 0, m_offsets = [], m_durations = [], m_samples = []\<rparr>"

subsection \<open>Numeric helpers of the language\<close>

definition FLT_EPSILON :: real where
  "FLT_EPSILON = 1 / 2 ^ 23"

definition INT64_MAX :: int where
  "INT64_MAX = 2 ^ 63 - 1"

definition INT64_MIN :: int where
  "INT64_MIN = - (2 ^ 63)"

text \<open>Rounding to the nearest integer, halfway cases to the even neighbour.\<close>

definition round_half_even :: "real \<Rightarrow> int" where
  "round_half_even x =
     (let f = \<lfloor>x\<rfloor>; r = x - of_int f
      in if r < 1 / 2 then f else if 1 / 2 < r then f + 1 else if even f then f else f + 1)"

text \<open>The binary exponent \<open>e\<close> of a nonzero number: \<open>2^e \<le> |x| < 2^(e+1)\<close>.\<close>

definition float_exponent :: "real \<Rightarrow> int" where
  "float_exponent x =
     (if 1 \<le> \<bar>x\<bar> then bitlen \<lfloor>\<bar>x\<bar>\<rfloor> - 1 else - bitlen (\<lceil>1 / \<bar>x\<bar>\<rceil> - 1))"

text \<open>
  Rounding to the nearest number with \<open>p\<close> significant bits: the number is scaled so that
  its integer part has \<open>p\<close> bits, rounded to an integer, and scaled back.
\<close>

definition round_to_precision :: "nat \<Rightarrow> real \<Rightarrow> real" where
  "round_to_precision p x =
     (if x = 0 then 0
      else let u = 2 powi (float_exponent x - int p + 1)
           in of_int (round_half_even (x / u)) * u)"

text \<open>The result of an operation evaluated in \<open>float\<close> and in \<open>double\<close>.\<close>

definition to_float :: "real \<Rightarrow> real" where
  "to_float = round_to_precision 24"

definition to_double :: "real \<Rightarrow> real" where
  "to_double = round_to_precision 53"

text \<open>\<open>round\<close> of the C library: to the nearest integer, halfway cases away from zero.\<close>

definition c_round :: "real \<Rightarrow> int" where
  "c_round x = (if 0 \<le> x then \<lfloor>x + 1 / 2\<rfloor> else \<lceil>x - 1 / 2\<rceil>)"

text \<open>
  Conversion of an integral floating value to \<open>size_t\<close> and to \<open>int64_t\<close>: undefined
  when the value is not representable in the destination type.
\<close>

definition float_to_size_t :: "int \<Rightarrow> error + nat" where
  "float_to_size_t r = (if 0 \<le> r \<and> r < 2 ^ 64 then Inr (nat r) else Inl UndefinedConversion)"

definition float_to_int64 :: "int \<Rightarrow> error + int" where
  "float_to_int64 r =
     (if INT64_MIN \<le> r \<and> r \<le> INT64_MAX then Inr r else Inl UndefinedConversion)"

subsection \<open>Refresh\<close>

text \<open>
  Lines 113 to 115: raster geometry on the voltage axis. The three variables are declared
  \<open>float\<close>; the height is converted to \<open>float\<close> for the division.
\<close>

definition vrange :: "InputStream \<Rightarrow> real" where
  "vrange s = to_float (GetVoltageRange s)"

definition volts_per_row :: "InputStream \<Rightarrow> EyeWaveform \<Rightarrow> real" where
  "volts_per_row s din = to_float (vrange s / to_float (real (GetHeight din)))"

definition volts_at_bottom :: "InputStream \<Rightarrow> EyeWaveform \<Rightarrow> real" where
  "volts_at_bottom s din =
     to_float (to_float (GetCenterVoltage din) - to_float (vrange s / 2))"

text \<open>
  Lines 117 to 120 for one voltage: subtract and divide in \<open>float\<close>, round to the nearest
  row, convert to \<open>size_t\<close>, then take the minimum with \<open>GetHeight() - 1\<close>. With a zero
  voltage range \<open>volts_per_row\<close> is zero or NaN, the quotient is infinite or NaN and its
  conversion is undefined. With a zero height (and a nonzero range) \<open>volts_per_row\<close> is
  infinite, the quotient is zero, and the unsigned \<open>GetHeight() - 1\<close> is the largest
  \<open>size_t\<close>, so the bin is 0.
\<close>

definition row_bin :: "InputStream \<Rightarrow> EyeWaveform \<Rightarrow> real \<Rightarrow> error + nat" where
  "row_bin s din v =
     (if vrange s = 0 then Inl UndefinedConversion
      else if GetHeight din = 0 then Inr 0
      else case float_to_size_t
                  (c_round (to_float (to_float (v - volts_at_bottom s din)
                                      / volts_per_row s din))) of
             Inl err \<Rightarrow> Inl err
           | Inr bin \<Rightarrow> Inr (min bin (GetHeight din - 1)))"

text \<open>Lines 103 to 110: the two thresholds, swapped into ascending order.\<close>

definition ordered_voltages :: "real \<Rightarrow> real \<Rightarrow> real \<times> real" where
  "ordered_voltages vstart vend = (if vstart > vend then (vend, vstart) else (vstart, vend))"

text \<open>
  Lines 103 to 120: \<open>start_bin\<close> and \<open>end_bin\<close>. The two parameters are read into \<open>float\<close>
  variables.
\<close>

definition row_bins :: "InputStream \<Rightarrow> EyeWaveform \<Rightarrow> real \<Rightarrow> real \<Rightarrow> error + nat \<times> nat" where
  "row_bins s din vstart0 vend0 =
     (let (vstart, vend) = ordered_voltages (to_float vstart0) (to_float vend0)
      in case row_bin s din vstart of
           Inl err \<Rightarrow> Inl err
         | Inr start_bin \<Rightarrow>
             (case row_bin s din vend of
                Inl err \<Rightarrow> Inl err
              | Inr end_bin \<Rightarrow> Inr (start_bin, end_bin)))"

text \<open>Lines 121 and 122, in \<open>float\<close>.\<close>

definition duration_mv :: "InputStream \<Rightarrow> EyeWaveform \<Rightarrow> real" where
  "duration_mv s din = to_float (volts_per_row s din * 1000)"

definition base_mv :: "InputStream \<Rightarrow> EyeWaveform \<Rightarrow> real" where
  "base_mv s din = to_float (volts_at_bottom s din * 1000)"

text \<open>
  Lines 125 to 129. \<open>width_fs\<close> and \<open>fs_per_pixel\<close> are declared \<open>double\<close>; the width is
  converted to \<open>double\<close> for the division.
\<close>

definition xcenter :: "EyeWaveform \<Rightarrow> int" where
  "xcenter din = int (GetWidth din) div 2"

definition ber_max :: real where
  "ber_max = FLT_EPSILON"

definition fs_per_pixel :: "EyeWaveform \<Rightarrow> real" where
  "fs_per_pixel din =
     to_double (to_double (2 * m_uiWidth din) / to_double (real (GetWidth din)))"

text \<open>Line 134: \<open>row = data + i*w\<close>, read at column \<open>x\<close>.\<close>

definition row_at :: "EyeWaveform \<Rightarrow> nat \<Rightarrow> int \<Rightarrow> real" where
  "row_at din i x = GetData din ! (i * GetWidth din + nat x)"

text \<open>Lines 140 to 151: the inner loop over \<open>dx\<close>, carrying \<open>cleft\<close> and \<open>cright\<close>.\<close>

function edge_scan :: "(int \<Rightarrow> real) \<Rightarrow> int \<Rightarrow> int \<Rightarrow> int \<times> int \<Rightarrow> int \<times> int" where
  "edge_scan row xc dx (cleft, cright) =
     (if dx < xc then
        edge_scan row xc (dx + 1)
          (if row (xc - dx) > ber_max then max cleft (xc - dx) else cleft,
           if row (xc + dx) > ber_max then min cright (xc + dx) else cright)
      else (cleft, cright))"
  by pat_completeness auto
termination
  by (relation "measure (\<lambda>(row, xc, dx, c). nat (xc - dx))") auto

text \<open>Lines 136 to 151: the edges of the eye in row \<open>i\<close>.\<close>

definition scan_row :: "EyeWaveform \<Rightarrow> nat \<Rightarrow> int \<times> int" where
  "scan_row din i = edge_scan (row_at din i) (xcenter din) 0 (0, int (GetWidth din) - 1)"

text \<open>
  The inner loop reads, in row \<open>i\<close>, the columns \<open>1\<close> to \<open>2 * xcenter - 1\<close> (none when
  \<open>xcenter\<close> is 0). The last of them is the highest index of the buffer the row touches.
\<close>

definition scan_out_of_bounds :: "EyeWaveform \<Rightarrow> nat \<Rightarrow> bool" where
  "scan_out_of_bounds din i =
     (0 < xcenter din \<and>
      length (GetData din) \<le> i * GetWidth din + nat (2 * xcenter din - 1))"

text \<open>
  Line 156: the column count is converted to \<open>double\<close>, the product is formed in \<open>double\<close>
  and stored in the \<open>float\<close> variable \<open>value\<close>.
\<close>

definition row_value :: "EyeWaveform \<Rightarrow> int \<Rightarrow> real" where
  "row_value din cols = to_float (to_double (fs_per_pixel din * to_double (real_of_int cols)))"

text \<open>
  Line 159: the row index is converted to \<open>float\<close>; product and sum are formed in \<open>float\<close>
  and rounded to the nearest integer.
\<close>

definition row_offset :: "real \<Rightarrow> real \<Rightarrow> nat \<Rightarrow> int" where
  "row_offset dmv bmv i = c_round (to_float (to_float (to_float (real i) * dmv) + bmv))"

text \<open>
  Line 164: the product is formed in \<open>double\<close>. The member \<open>m_value\<close> is declared outside
  this file; it is taken to be a \<open>double\<close>, so that the product is stored as computed.
\<close>

definition scalar_value :: "EyeWaveform \<Rightarrow> int \<Rightarrow> real" where
  "scalar_value din cols = to_double (fs_per_pixel din * to_double (real_of_int cols))"

text \<open>
  Lines 132 to 162: the loop over the rows, carrying \<open>far_left\<close>, \<open>far_right\<close> and the
  output waveform.
\<close>

function row_loop ::
    "EyeWaveform \<Rightarrow> real \<Rightarrow> real \<Rightarrow> nat \<Rightarrow> nat \<Rightarrow> int \<times> int \<times> SparseAnalogWaveform
       \<Rightarrow> error + int \<times> int \<times> SparseAnalogWaveform" where
  "row_loop din dmv bmv i end_bin (far_left, far_right, cap) =
     (if i \<le> end_bin then
        if scan_out_of_bounds din i then Inl OutOfBounds
        else
          (case scan_row din i of (cleft, cright) \<Rightarrow>
             (case float_to_int64 (row_offset dmv bmv i) of
                Inl err \<Rightarrow> Inl err
              | Inr off \<Rightarrow>
                  (case float_to_int64 (c_round dmv) of
                     Inl err \<Rightarrow> Inl err
                   | Inr dur \<Rightarrow>
                       row_loop din dmv bmv (i + 1) end_bin
                         (min far_left cleft, max far_right cright,
                          cap\<lparr>m_offsets := m_offsets cap @ [off],
                              m_durations := m_durations cap @ [dur],
                              m_samples := m_samples cap
                                 @ [row_value din (cright - cleft)]\<rparr>))))
      else Inr (far_left, far_right, cap))"
  by pat_completeness auto
termination
  by (relation "measure (\<lambda>(din, d, b, i, end_bin, st). Suc end_bin - i)") auto

text \<open>
  Lines 93 to 168: the computation on a present input. A raster of width zero makes
  \<open>fs_per_pixel\<close> infinite or NaN. A raster of height zero makes \<open>duration_mv\<close> infinite;
  the loop then runs for row 0, where \<open>i*duration_mv\<close> is NaN and its conversion to an
  offset is undefined.
\<close>

definition refresh_eye ::
    "EyeWidthMeasurement \<Rightarrow> InputStream \<Rightarrow> EyeWaveform \<Rightarrow> error + EyeWidthMeasurement" where
  "refresh_eye f s din =
     (case row_bins s din (m_startVoltage f) (m_endVoltage f) of
        Inl err \<Rightarrow> Inl err
      | Inr (start_bin, end_bin) \<Rightarrow>
          if GetWidth din = 0 then Inl NonFiniteFloat
          else if GetHeight din = 0 then Inl UndefinedConversion
          else
            (case row_loop din (duration_mv s din) (base_mv s din) start_bin end_bin
                    (INT64_MAX, INT64_MIN,
                     SetupEmptySparseAnalogOutputWaveform\<lparr>m_timescale := 1\<rparr>) of
               Inl err \<Rightarrow> Inl err
             | Inr (far_left, far_right, cap) \<Rightarrow>
                 if far_right - far_left < INT64_MIN \<or> INT64_MAX < far_right - far_left
                 then Inl SignedOverflow
                 else Inr (f\<lparr>m_data0 := Some cap,
                             m_value1 := Finite (scalar_value din (far_right - far_left))\<rparr>)))"

text \<open>Lines 84 to 169.\<close>

definition Refresh :: "EyeWidthMeasurement \<Rightarrow> error + EyeWidthMeasurement" where
  "Refresh f =
     (if \<not> VerifyAllInputsOK f then Inr (f\<lparr>m_data0 := None, m_value1 := NaN\<rparr>)
      else
        (case m_input0 f of
           None \<Rightarrow> Inl NullDereference
         | Some s \<Rightarrow>
             (case GetInputWaveform s of
                None \<Rightarrow> Inl NullDereference
              | Some din \<Rightarrow> refresh_eye f s din)))"

declare edge_scan.simps [simp del]
declare row_loop.simps [simp del]

text \<open>What a run publishes: the waveform of stream 0 and the scalar of stream 1.\<close>

definition outputs ::
    "error + EyeWidthMeasurement \<Rightarrow> error + SparseAnalogWaveform option \<times> scalar" where
  "outputs r = (case r of Inl err \<Rightarrow> Inl err | Inr f \<Rightarrow> Inr (m_data0 f, m_value1 f))"

subsection \<open>Reference descriptions of the eye edges\<close>

text \<open>A column of row \<open>i\<close> is occupied when its value exceeds the bit-error threshold.\<close>

definition occupied :: "EyeWaveform \<Rightarrow> nat \<Rightarrow> int \<Rightarrow> bool" where
  "occupied din i x = (row_at din i x > FLT_EPSILON)"

text \<open>
  The edges as the scan finds them: the rightmost occupied column at or left of the centre
  column (column 0 when there is none), and the leftmost occupied column at or right of
  the centre column (the last column when there is none).
\<close>

definition closure_left :: "EyeWaveform \<Rightarrow> nat \<Rightarrow> int" where
  "closure_left din i = Max (insert 0 {x \<in> {0..xcenter din}. occupied din i x})"

definition closure_right :: "EyeWaveform \<Rightarrow> nat \<Rightarrow> int" where
  "closure_right din i =
     Min (insert (int (GetWidth din) - 1)
            {x \<in> {xcenter din..int (GetWidth din) - 1}. occupied din i x})"

text \<open>
  The edges in the words of the specification, with the centre column excluded on both
  sides: the rightmost occupied column strictly left of the centre (initialised to column
  0) and the leftmost occupied column strictly right of the centre (initialised to the
  last column).
\<close>

definition spec_closure_left :: "EyeWaveform \<Rightarrow> nat \<Rightarrow> int" where
  "spec_closure_left din i = Max (insert 0 {x \<in> {0..xcenter din - 1}. occupied din i x})"

definition spec_closure_right :: "EyeWaveform \<Rightarrow> nat \<Rightarrow> int" where
  "spec_closure_right din i =
     Min (insert (int (GetWidth din) - 1)
            {x \<in> {xcenter din + 1..int (GetWidth din) - 1}. occupied din i x})"

text \<open>
  The time per column in the words of the specification, \<open>2 * unit_interval_width /
  raster_width\<close>, evaluated in \<open>double\<close>.
\<close>

definition time_per_column :: "EyeWaveform \<Rightarrow> real" where
  "time_per_column din =
     to_double (to_double (2 * m_uiWidth din) / to_double (real (GetWidth din)))"

text \<open>
  A number of columns times the time per column: the product in \<open>double\<close>, and the same
  product stored in a \<open>float\<close>.
\<close>

definition columns_time :: "EyeWaveform \<Rightarrow> int \<Rightarrow> real" where
  "columns_time din cols = to_double (to_double (real_of_int cols) * time_per_column din)"

definition columns_time_float :: "EyeWaveform \<Rightarrow> int \<Rightarrow> real" where
  "columns_time_float din cols = to_float (columns_time din cols)"

text \<open>The width of the opening of row \<open>j\<close> between these edges, in time units.\<close>

definition row_width :: "EyeWaveform \<Rightarrow> nat \<Rightarrow> real" where
  "row_width din j = row_value din (closure_right din j - closure_left din j)"

subsection \<open>A small raster\<close>

text \<open>
  Two rows of six columns, the centre column being column 3. Row 0 has one occupied column
  left of the centre, row 1 one occupied column right of it. The voltage range of 2 V
  around 0 V gives one volt per row; the thresholds are given in descending order.
\<close>

definition demo_eye :: EyeWaveform where
  "demo_eye = \<lparr>GetWidth = 6, GetHeight = 2,
                GetData = [0, 0, 1, 0, 0, 0,  0, 0, 0, 0, 1, 0],
                m_uiWidth = 3, GetCenterVoltage = 0\<rparr>"

definition demo_input :: InputStream where
  "demo_input = \<lparr>GetVoltageRange = 2, GetInputWaveform = Some demo_eye\<rparr>"

definition demo_filter :: EyeWidthMeasurement where
  "demo_filter = \<lparr>m_input0 = Some demo_input, m_startVoltage = 1, m_endVoltage = - 1,
                   m_data0 = None, m_value1 = NaN\<rparr>"

definition demo_cap :: SparseAnalogWaveform where
  "demo_cap = \<lparr>m_timescale = 1, m_offsets = [- 1000, 0], m_durations = [1000, 1000],
                m_samples = [3, 4]\<rparr>"

text \<open>An unbound filter that still holds the outputs of an earlier run.\<close>

definition unbound_filter :: EyeWidthMeasurement where
  "unbound_filter = \<lparr>m_input0 = None, m_startVoltage = - 1 / 2, m_endVoltage = 1 / 2,
                      m_data0 = Some demo_cap, m_value1 = Finite 5\<rparr>"

subsection \<open>Further rasters\<close>

text \<open>One row of four columns whose centre column (column 2) is the only occupied one.\<close>

definition closed_eye :: EyeWaveform where
  "closed_eye = \<lparr>GetWidth = 4, GetHeight = 1, GetData = [0, 0, 1, 0],
                  m_uiWidth = 1, GetCenterVoltage = 0\<rparr>"

definition closed_filter :: EyeWidthMeasurement where
  "closed_filter =
     \<lparr>m_input0 = Some \<lparr>GetVoltageRange = 1, GetInputWaveform = Some closed_eye\<rparr>,
      m_startVoltage = 0, m_endVoltage = 0, m_data0 = None, m_value1 = NaN\<rparr>"

text \<open>
  Scenario C of the specification: one row of four columns, every column occupied except
  the centre column.
\<close>

definition scenario_C_eye :: EyeWaveform where
  "scenario_C_eye = \<lparr>GetWidth = 4, GetHeight = 1, GetData = [1, 1, 0, 1],
                      m_uiWidth = 1, GetCenterVoltage = 0\<rparr>"

definition scenario_C_input :: InputStream where
  "scenario_C_input = \<lparr>GetVoltageRange = 1, GetInputWaveform = Some scenario_C_eye\<rparr>"

definition scenario_C_filter :: EyeWidthMeasurement where
  "scenario_C_filter =
     \<lparr>m_input0 = Some scenario_C_input,
      m_startVoltage = 0, m_endVoltage = 0, m_data0 = None, m_value1 = NaN\<rparr>"

definition scenario_C_cap :: SparseAnalogWaveform where
  "scenario_C_cap =
     \<lparr>m_timescale = 1, m_offsets = [- 500], m_durations = [1000], m_samples = [1]\<rparr>"

text \<open>
  A raster of 256 rows over a range of 125 mV around 0 V: each row spans less than half
  a millivolt. The thresholds select rows 128 and 129.
\<close>

definition fine_eye :: EyeWaveform where
  "fine_eye = \<lparr>GetWidth = 2, GetHeight = 256, GetData = replicate 512 0,
                m_uiWidth = 1, GetCenterVoltage = 0\<rparr>"

definition fine_input :: InputStream where
  "fine_input = \<lparr>GetVoltageRange = 1 / 8, GetInputWaveform = Some fine_eye\<rparr>"

definition fine_filter :: EyeWidthMeasurement where
  "fine_filter =
     \<lparr>m_input0 = Some fine_input,
      m_startVoltage = 0, m_endVoltage = 1 / 2048, m_data0 = None, m_value1 = NaN\<rparr>"

text \<open>
  Scenario A of the specification: 64 rows over a range of 2 V around 0 V, that is
  1/32 V per row with the bottom of the raster at -1 V.
\<close>

definition scenario_A_eye :: EyeWaveform where
  "scenario_A_eye = \<lparr>GetWidth = 2, GetHeight = 64, GetData = replicate 128 0,
                      m_uiWidth = 1, GetCenterVoltage = 0\<rparr>"

definition scenario_A_input :: InputStream where
  "scenario_A_input = \<lparr>GetVoltageRange = 2, GetInputWaveform = Some scenario_A_eye\<rparr>"

text \<open>One row of three empty columns, with a unit interval of 1.\<close>

definition three_column_eye :: EyeWaveform where
  "three_column_eye = \<lparr>GetWidth = 3, GetHeight = 1, GetData = [0, 0, 0],
                        m_uiWidth = 1, GetCenterVoltage = 0\<rparr>"

definition three_column_filter :: EyeWidthMeasurement where
  "three_column_filter =
     \<lparr>m_input0 = Some \<lparr>GetVoltageRange = 1, GetInputWaveform = Some three_column_eye\<rparr>,
      m_startVoltage = 0, m_endVoltage = 0, m_data0 = None, m_value1 = NaN\<rparr>"

text \<open>
  Eight rows over a range of 3.3 V around 0 V, and a threshold at 0 V. A row is 412.5 mV
  high, which \<open>round\<close> takes to 413.
\<close>

definition tall_eye :: EyeWaveform where
  "tall_eye = \<lparr>GetWidth = 2, GetHeight = 8, GetData = replicate 16 0,
                m_uiWidth = 1, GetCenterVoltage = 0\<rparr>"

definition tall_input :: InputStream where
  "tall_input = \<lparr>GetVoltageRange = 33 / 10, GetInputWaveform = Some tall_eye\<rparr>"

definition tall_filter :: EyeWidthMeasurement where
  "tall_filter = \<lparr>m_input0 = Some tall_input, m_startVoltage = 0, m_endVoltage = 0,
                   m_data0 = None, m_value1 = NaN\<rparr>"

text \<open>
  A threshold is inside the represented range when, as a \<open>float\<close>, it lies between the
  voltage at the bottom of the raster and that voltage plus the range.
\<close>

definition represented :: "InputStream \<Rightarrow> EyeWaveform \<Rightarrow> real \<Rightarrow> bool" where
  "represented s din v =
     (volts_at_bottom s din \<le> to_float v \<and> to_float v \<le> volts_at_bottom s din + vrange s)"

text \<open>
  The raster class allocates its buffer with one value per cell; a raster built by the
  library satisfies this.
\<close>

definition wf_eye :: "EyeWaveform \<Rightarrow> bool" where
  "wf_eye din = (length (GetData din) = GetWidth din * GetHeight din)"

section \<open>Properties\<close>

subsection \<open>Input validation\<close>

text \<open>
  C7. \<open>ValidateChannel\<close> is a total function of its arguments (a pure predicate with no
  error result). It answers true exactly when the candidate's channel is not null, the
  input index is 0 and the candidate stream is an eye raster; in every other case (null
  channel, another index, another stream type) it answers false.
\<close>

theorem ValidateChannel_iff:
  "ValidateChannel GetType i stream =
     (m_channel stream \<noteq> None \<and> i = 0 \<and> GetType stream = STREAM_TYPE_EYE)"
  by (simp add: ValidateChannel_def)

text \<open>
  C6. When \<open>VerifyAllInputsOK\<close> is false, \<open>Refresh\<close> returns normally; the waveform output
  is null and the scalar output is NaN. Nothing else of the filter changes, and the result
  does not depend on any input data.
\<close>

theorem Refresh_invalid_input:
  assumes "\<not> VerifyAllInputsOK f"
  shows "Refresh f = Inr (f\<lparr>m_data0 := None, m_value1 := NaN\<rparr>)"
  using assms by (simp add: Refresh_def)

theorem Refresh_invalid_input_witness:
  "\<not> VerifyAllInputsOK unbound_filter \<and>
   Refresh unbound_filter =
     Inr \<lparr>m_input0 = None, m_startVoltage = - 1 / 2, m_endVoltage = 1 / 2,
          m_data0 = None, m_value1 = NaN\<rparr>"
proof -
  have 1: "\<not> VerifyAllInputsOK unbound_filter"
    by (simp add: VerifyAllInputsOK_def unbound_filter_def)
  show ?thesis
    using Refresh_invalid_input [OF 1] 1 by (simp add: unbound_filter_def)
qed

subsection \<open>Rounding to a floating format\<close>

lemma round_half_even_near:
  "\<bar>of_int (round_half_even x) - x\<bar> \<le> 1 / 2"
  unfolding round_half_even_def Let_def by (auto; linarith)

lemma round_half_even_mono:
  assumes "x \<le> y"
  shows "round_half_even x \<le> round_half_even y"
proof (rule ccontr)
  assume "\<not> round_half_even x \<le> round_half_even y"
  then have lt: "of_int (round_half_even y) + 1 \<le> (of_int (round_half_even x) :: real)"
    by linarith
  have "of_int (round_half_even x) - 1 / 2 \<le> x" "y \<le> of_int (round_half_even y) + 1 / 2"
    using round_half_even_near [of x] round_half_even_near [of y] by linarith+
  with lt assms have "x = y" by linarith
  with \<open>\<not> round_half_even x \<le> round_half_even y\<close> show False by simp
qed

lemma round_half_even_of_int [simp]: "round_half_even (of_int z) = z"
  by (simp add: round_half_even_def)

lemma round_half_even_power2 [simp]: "round_half_even (2 ^ n) = 2 ^ n"
  using round_half_even_of_int [of "2 ^ n"] by simp

lemma round_half_even_minus: "round_half_even (- x) = - round_half_even x"
proof (cases "x \<in> \<int>")
  case True
  then obtain z where "x = of_int z" by (auto elim: Ints_cases)
  then have "round_half_even (- x) = round_half_even (of_int (- z))" by simp
  also have "\<dots> = - z" by (rule round_half_even_of_int)
  finally show ?thesis using \<open>x = of_int z\<close> by simp
next
  case False
  have ne: "x \<noteq> of_int \<lfloor>x\<rfloor>"
  proof
    assume "x = of_int \<lfloor>x\<rfloor>"
    then have "x \<in> \<int>" by (metis Ints_of_int)
    with False show False ..
  qed
  then have f: "\<lfloor>- x\<rfloor> = - \<lfloor>x\<rfloor> - 1"
    by (simp add: floor_minus ceiling_altdef)
  have r: "0 < x - of_int \<lfloor>x\<rfloor>" using ne of_int_floor_le [of x] by linarith
  show ?thesis
    unfolding round_half_even_def Let_def f using r ne by (auto; linarith?)
qed

lemma float_exponent_bounds:
  assumes "x \<noteq> 0"
  shows "2 powi float_exponent x \<le> \<bar>x\<bar>" and "\<bar>x\<bar> < 2 powi (float_exponent x + 1)"
proof -
  have "2 powi float_exponent x \<le> \<bar>x\<bar> \<and> \<bar>x\<bar> < 2 powi (float_exponent x + 1)"
  proof (cases "1 \<le> \<bar>x\<bar>")
    case True
    let ?n = "\<lfloor>\<bar>x\<bar>\<rfloor>"
    have n: "0 < ?n" using True by simp
    from bitlen_bounds [OF n]
    have b: "2 ^ nat (bitlen ?n - 1) \<le> ?n" "?n < 2 ^ nat (bitlen ?n)" by simp_all
    have k: "1 \<le> bitlen ?n" using n by (simp add: bitlen_alt_def)
    have e: "float_exponent x = bitlen ?n - 1" using True by (simp add: float_exponent_def)
    have "(2::real) powi (bitlen ?n - 1) = of_int (2 ^ nat (bitlen ?n - 1))"
      using k by (simp add: power_int_def)
    also have "\<dots> \<le> of_int ?n" using b(1) by (simp only: of_int_le_iff)
    also have "\<dots> \<le> \<bar>x\<bar>" by simp
    finally have lo: "2 powi float_exponent x \<le> \<bar>x\<bar>" by (simp add: e)
    have "?n + 1 \<le> 2 ^ nat (bitlen ?n)" using b(2) by simp
    then have "(of_int (?n + 1) :: real) \<le> of_int (2 ^ nat (bitlen ?n))"
      by (simp only: of_int_le_iff)
    then have "of_int ?n + 1 \<le> (2::real) ^ nat (bitlen ?n)" by simp
    moreover have "\<bar>x\<bar> < of_int ?n + 1" by linarith
    ultimately have "\<bar>x\<bar> < (2::real) ^ nat (bitlen ?n)" by linarith
    moreover have "(2::real) powi (bitlen ?n) = 2 ^ nat (bitlen ?n)"
      using k by (simp add: power_int_def)
    ultimately have "\<bar>x\<bar> < 2 powi (float_exponent x + 1)" by (simp add: e)
    with lo show ?thesis ..
  next
    case False
    let ?y = "1 / \<bar>x\<bar>"
    let ?m = "\<lceil>?y\<rceil> - 1"
    have y: "1 < ?y" using False assms by simp
    then have m: "0 < ?m" by simp
    from bitlen_bounds [OF m]
    have b: "2 ^ nat (bitlen ?m - 1) \<le> ?m" "?m < 2 ^ nat (bitlen ?m)" by simp_all
    have k: "1 \<le> bitlen ?m" using m by (simp add: bitlen_alt_def)
    have e: "float_exponent x = - bitlen ?m" using False by (simp add: float_exponent_def)
    have "\<lceil>?y\<rceil> \<le> 2 ^ nat (bitlen ?m)" using b(2) by simp
    then have "?y \<le> of_int (2 ^ nat (bitlen ?m))"
      by (simp only: ceiling_le_iff)
    then have "?y \<le> 2 ^ nat (bitlen ?m)" by simp
    then have "1 / 2 ^ nat (bitlen ?m) \<le> \<bar>x\<bar>"
      using assms by (simp add: field_simps)
    moreover have "(2::real) powi (- bitlen ?m) = 1 / 2 ^ nat (bitlen ?m)"
      using k by (simp add: power_int_def field_simps)
    ultimately have lo: "2 powi float_exponent x \<le> \<bar>x\<bar>" by (simp add: e)
    have "(of_int (2 ^ nat (bitlen ?m - 1)) :: real) \<le> of_int ?m"
      using b(1) by (simp only: of_int_le_iff)
    moreover have "of_int ?m < ?y" using ceiling_correct [of ?y] by simp
    ultimately have "2 ^ nat (bitlen ?m - 1) < ?y" by simp
    then have "\<bar>x\<bar> < 1 / 2 ^ nat (bitlen ?m - 1)"
      using assms by (simp add: field_simps)
    moreover have "(2::real) powi (- bitlen ?m + 1) = 1 / 2 ^ nat (bitlen ?m - 1)"
    proof -
      have "- bitlen ?m + 1 = - (bitlen ?m - 1)" by simp
      then have "(2::real) powi (- bitlen ?m + 1) = 2 powi (- (bitlen ?m - 1))"
        by (simp only:)
      also have "\<dots> = 1 / 2 powi (bitlen ?m - 1)" by (rule power_int_minus_divide)
      also have "(2::real) powi (bitlen ?m - 1) = 2 ^ nat (bitlen ?m - 1)"
        using k by (simp add: power_int_def)
      finally show ?thesis .
    qed
    ultimately have "\<bar>x\<bar> < 2 powi (float_exponent x + 1)" by (simp add: e)
    with lo show ?thesis ..
  qed
  then show "2 powi float_exponent x \<le> \<bar>x\<bar>" and "\<bar>x\<bar> < 2 powi (float_exponent x + 1)"
    by simp_all
qed

lemma float_exponent_eqI:
  assumes "2 powi e \<le> \<bar>x\<bar>" and "\<bar>x\<bar> < 2 powi (e + 1)"
  shows "float_exponent x = e"
proof -
  have "(0::real) < 2 powi e" by simp
  with assms(1) have "0 < \<bar>x\<bar>" by linarith
  then have x: "x \<noteq> 0" by simp
  note b = float_exponent_bounds [OF x]
  have "\<not> float_exponent x < e"
  proof
    assume "float_exponent x < e"
    then have "(2::real) powi (float_exponent x + 1) \<le> 2 powi e"
      by (intro power_int_increasing) simp_all
    with b(2) assms(1) show False by linarith
  qed
  moreover have "\<not> e < float_exponent x"
  proof
    assume "e < float_exponent x"
    then have "(2::real) powi (e + 1) \<le> 2 powi float_exponent x"
      by (intro power_int_increasing) simp_all
    with b(1) assms(2) show False by linarith
  qed
  ultimately show ?thesis by linarith
qed

lemma two_powi_add_1: "(2::real) powi (n + 1) = 2 powi n * 2"
  by (simp add: power_int_add)

lemma float_exponent_minus [simp]: "float_exponent (- x) = float_exponent x"
  by (simp add: float_exponent_def)

lemma float_exponent_mono:
  assumes "0 < x" and "x \<le> y"
  shows "float_exponent x \<le> float_exponent y"
proof (rule ccontr)
  assume "\<not> float_exponent x \<le> float_exponent y"
  then have "float_exponent y + 1 \<le> float_exponent x" by simp
  then have "(2::real) powi (float_exponent y + 1) \<le> 2 powi float_exponent x"
    by (intro power_int_increasing) simp_all
  moreover have "\<bar>y\<bar> < 2 powi (float_exponent y + 1)" "2 powi float_exponent x \<le> \<bar>x\<bar>"
    using assms float_exponent_bounds(2) [of y] float_exponent_bounds(1) [of x] by auto
  ultimately show False using assms by linarith
qed

lemma float_exponent_double:
  assumes "x \<noteq> 0"
  shows "float_exponent (2 * x) = float_exponent x + 1"
proof (rule float_exponent_eqI)
  note b = float_exponent_bounds [OF assms]
  have "(2::real) powi (float_exponent x + 1) = 2 powi float_exponent x * 2"
    by (simp add: power_int_add)
  then show "2 powi (float_exponent x + 1) \<le> \<bar>2 * x\<bar>"
    using b(1) by (simp add: abs_mult)
  have "(2::real) powi (float_exponent x + 1 + 1) = 2 powi (float_exponent x + 1) * 2"
    by (simp add: power_int_add)
  then show "\<bar>2 * x\<bar> < 2 powi (float_exponent x + 1 + 1)"
    using b(2) by (simp add: abs_mult)
qed

text \<open>The scaled value lies between \<open>2^(p-1)\<close> and \<open>2^p\<close>, and so does its rounding.\<close>

lemma scaled_bounds:
  assumes "0 < x" and "0 < p"
  defines "u \<equiv> 2 powi (float_exponent x - int p + 1)"
  shows "2 ^ (p - 1) \<le> x / u" and "x / u < 2 ^ p"
    and "2 ^ (p - 1) \<le> round_half_even (x / u)" and "round_half_even (x / u) \<le> 2 ^ p"
proof -
  have x: "x \<noteq> 0" "\<bar>x\<bar> = x" using assms(1) by simp_all
  note b = float_exponent_bounds [OF x(1), unfolded x(2)]
  have u: "0 < u" by (simp add: u_def)
  have e1: "2 powi float_exponent x = 2 ^ (p - 1) * u"
  proof -
    have "float_exponent x = int (p - 1) + (float_exponent x - int p + 1)"
      using assms(2) by simp
    then have "(2::real) powi float_exponent x
                 = 2 powi (int (p - 1) + (float_exponent x - int p + 1))" by simp
    also have "\<dots> = 2 powi int (p - 1) * 2 powi (float_exponent x - int p + 1)"
      by (rule power_int_add) simp
    finally show ?thesis by (simp add: u_def)
  qed
  have e2: "2 powi (float_exponent x + 1) = 2 ^ p * u"
  proof -
    have "float_exponent x + 1 = int p + (float_exponent x - int p + 1)" by simp
    then have "(2::real) powi (float_exponent x + 1)
                 = 2 powi (int p + (float_exponent x - int p + 1))" by simp
    also have "\<dots> = 2 powi int p * 2 powi (float_exponent x - int p + 1)"
      by (rule power_int_add) simp
    finally show ?thesis by (simp add: u_def)
  qed
  show lo: "2 ^ (p - 1) \<le> x / u" using b(1) u by (simp add: e1 pos_le_divide_eq)
  show hi: "x / u < 2 ^ p" using b(2) u by (simp add: e2 pos_divide_less_eq)
  have "round_half_even (2 ^ (p - 1)) \<le> round_half_even (x / u)"
    using lo by (rule round_half_even_mono)
  then show "2 ^ (p - 1) \<le> round_half_even (x / u)" by (simp only: round_half_even_power2)
  have "round_half_even (x / u) \<le> round_half_even (2 ^ p)"
    using hi by (intro round_half_even_mono) simp
  then show "round_half_even (x / u) \<le> 2 ^ p" by (simp only: round_half_even_power2)
qed

lemma round_to_precision_minus: "round_to_precision p (- x) = - round_to_precision p x"
  by (simp add: round_to_precision_def Let_def round_half_even_minus)

lemma round_to_precision_bracket:
  assumes "0 < x" and "0 < p"
  shows "2 powi float_exponent x \<le> round_to_precision p x"
    and "round_to_precision p x \<le> 2 powi (float_exponent x + 1)"
proof -
  let ?u = "2 powi (float_exponent x - int p + 1) :: real"
  note sb = scaled_bounds [OF assms]
  have u: "0 < ?u" by simp
  have r: "round_to_precision p x = of_int (round_half_even (x / ?u)) * ?u"
    using assms(1) by (simp add: round_to_precision_def Let_def)
  have e1: "2 powi float_exponent x = 2 ^ (p - 1) * ?u"
  proof -
    have "float_exponent x = int (p - 1) + (float_exponent x - int p + 1)"
      using assms(2) by simp
    then have "(2::real) powi float_exponent x
                 = 2 powi (int (p - 1) + (float_exponent x - int p + 1))" by simp
    also have "\<dots> = 2 powi int (p - 1) * 2 powi (float_exponent x - int p + 1)"
      by (rule power_int_add) simp
    finally show ?thesis by simp
  qed
  have e2: "2 powi (float_exponent x + 1) = 2 ^ p * ?u"
  proof -
    have "float_exponent x + 1 = int p + (float_exponent x - int p + 1)" by simp
    then have "(2::real) powi (float_exponent x + 1)
                 = 2 powi (int p + (float_exponent x - int p + 1))" by simp
    also have "\<dots> = 2 powi int p * 2 powi (float_exponent x - int p + 1)"
      by (rule power_int_add) simp
    finally show ?thesis by simp
  qed
  have "(of_int (2 ^ (p - 1)) :: real) \<le> of_int (round_half_even (x / ?u))"
    using sb(3) by (simp only: of_int_le_iff)
  then have "2 ^ (p - 1) * ?u \<le> of_int (round_half_even (x / ?u)) * ?u"
    using u by (intro mult_right_mono) simp_all
  then show "2 powi float_exponent x \<le> round_to_precision p x" by (simp only: e1 r)
  have "(of_int (round_half_even (x / ?u)) :: real) \<le> of_int (2 ^ p)"
    using sb(4) by (simp only: of_int_le_iff)
  then have "of_int (round_half_even (x / ?u)) * ?u \<le> 2 ^ p * ?u"
    using u by (intro mult_right_mono) simp_all
  then show "round_to_precision p x \<le> 2 powi (float_exponent x + 1)" by (simp only: e2 r)
qed

lemma round_to_precision_pos:
  assumes "0 < x" and "0 < p"
  shows "0 < round_to_precision p x"
proof -
  have "(0::real) < 2 powi float_exponent x" by simp
  with round_to_precision_bracket(1) [OF assms] show ?thesis by linarith
qed

lemma round_to_precision_mono_pos:
  assumes "0 < x" and "x \<le> y" and "0 < p"
  shows "round_to_precision p x \<le> round_to_precision p y"
proof (cases "float_exponent x = float_exponent y")
  case True
  let ?u = "2 powi (float_exponent y - int p + 1) :: real"
  have u: "0 < ?u" by simp
  have "x / ?u \<le> y / ?u" using assms(2) u by (simp add: divide_right_mono)
  then have "round_half_even (x / ?u) \<le> round_half_even (y / ?u)"
    by (rule round_half_even_mono)
  then have "(of_int (round_half_even (x / ?u)) :: real) \<le> of_int (round_half_even (y / ?u))"
    by (simp only: of_int_le_iff)
  then have "of_int (round_half_even (x / ?u)) * ?u \<le> of_int (round_half_even (y / ?u)) * ?u"
    using u by (intro mult_right_mono) simp_all
  then show ?thesis
    using assms(1,2) True by (simp add: round_to_precision_def Let_def)
next
  case False
  have y: "0 < y" using assms(1,2) by linarith
  from False float_exponent_mono [OF assms(1,2)]
  have "float_exponent x + 1 \<le> float_exponent y" by simp
  then have "(2::real) powi (float_exponent x + 1) \<le> 2 powi float_exponent y"
    by (intro power_int_increasing) simp_all
  with round_to_precision_bracket(2) [OF assms(1,3)] round_to_precision_bracket(1) [OF y assms(3)]
  show ?thesis by linarith
qed

lemma round_to_precision_mono:
  assumes "x \<le> y" and "0 < p"
  shows "round_to_precision p x \<le> round_to_precision p y"
proof -
  consider "0 < x" | "y < 0" | "x \<le> 0" "0 \<le> y" by linarith
  then show ?thesis
  proof cases
    case 1
    then show ?thesis using assms by (rule round_to_precision_mono_pos)
  next
    case 2
    then have "0 < - y" "- y \<le> - x" using assms(1) by simp_all
    then have "round_to_precision p (- y) \<le> round_to_precision p (- x)"
      using assms(2) by (rule round_to_precision_mono_pos)
    then show ?thesis by (simp add: round_to_precision_minus)
  next
    case 3
    have "round_to_precision p x \<le> 0"
    proof (cases "x = 0")
      case True then show ?thesis by (simp add: round_to_precision_def)
    next
      case False
      with 3 have "0 < - x" by simp
      then have "0 < round_to_precision p (- x)" using assms(2) by (rule round_to_precision_pos)
      then show ?thesis by (simp add: round_to_precision_minus)
    qed
    moreover have "0 \<le> round_to_precision p y"
    proof (cases "y = 0")
      case True then show ?thesis by (simp add: round_to_precision_def)
    next
      case False
      with 3 have "0 < y" by simp
      then have "0 < round_to_precision p y" using assms(2) by (rule round_to_precision_pos)
      then show ?thesis by simp
    qed
    ultimately show ?thesis by linarith
  qed
qed

lemma round_to_precision_zero [simp]: "round_to_precision p 0 = 0"
  by (simp add: round_to_precision_def)

lemma round_to_precision_nonneg:
  assumes "0 \<le> x" and "0 < p"
  shows "0 \<le> round_to_precision p x"
  using round_to_precision_mono [OF assms] by simp

lemma round_to_precision_eq_0_iff:
  assumes "0 < p"
  shows "round_to_precision p x = 0 \<longleftrightarrow> x = 0"
proof
  assume r: "round_to_precision p x = 0"
  show "x = 0"
  proof (rule ccontr)
    assume "x \<noteq> 0"
    then consider "0 < x" | "0 < - x" by linarith
    then show False
    proof cases
      case 1
      with round_to_precision_pos [OF 1 assms] r show False by simp
    next
      case 2
      with round_to_precision_pos [OF 2 assms] r show False
        by (simp add: round_to_precision_minus)
    qed
  qed
qed simp

lemma round_to_precision_double:
  "round_to_precision p (2 * x) = 2 * round_to_precision p x"
proof (cases "x = 0")
  case True
  then show ?thesis by simp
next
  case False
  have "(2::real) powi (float_exponent x + 1 - int p + 1)
          = 2 powi (float_exponent x - int p + 1) * 2"
  proof -
    have "float_exponent x + 1 - int p + 1 = (float_exponent x - int p + 1) + 1" by simp
    then show ?thesis by (simp only: two_powi_add_1)
  qed
  then show ?thesis
    using False by (simp add: round_to_precision_def Let_def float_exponent_double)
qed

lemma round_to_precision_eq:
  assumes "x \<noteq> 0" and "float_exponent x = e" and "u = 2 powi (e - int p + 1)"
  shows "round_to_precision p x = of_int (round_half_even (x / u)) * u"
  using assms by (simp add: round_to_precision_def Let_def)

lemma round_to_precision_idem_pos:
  assumes "0 < x" and "0 < p"
  shows "round_to_precision p (round_to_precision p x) = round_to_precision p x"
proof -
  define e where "e = float_exponent x"
  define u :: real where "u = 2 powi (e - int p + 1)"
  define m where "m = round_half_even (x / u)"
  define y :: real where "y = of_int m * u"
  have sb: "2 ^ (p - 1) \<le> m" "m \<le> 2 ^ p"
    using scaled_bounds(3,4) [OF assms] by (simp_all add: m_def u_def e_def)
  have u: "0 < u" by (simp add: u_def)
  have y: "round_to_precision p x = y"
    using assms(1) by (simp add: round_to_precision_def Let_def y_def m_def u_def e_def)
  have ypos: "0 < y" using round_to_precision_pos [OF assms] by (simp only: y)
  have e1: "2 powi e = 2 ^ (p - 1) * u"
  proof -
    have "e = int (p - 1) + (e - int p + 1)" using assms(2) by simp
    then have "(2::real) powi e = 2 powi (int (p - 1) + (e - int p + 1))" by simp
    also have "\<dots> = 2 powi int (p - 1) * 2 powi (e - int p + 1)"
      by (rule power_int_add) simp
    finally show ?thesis by (simp add: u_def)
  qed
  have e2: "2 powi (e + 1) = 2 ^ p * u"
  proof -
    have "e + 1 = int p + (e - int p + 1)" by simp
    then have "(2::real) powi (e + 1) = 2 powi (int p + (e - int p + 1))" by simp
    also have "\<dots> = 2 powi int p * 2 powi (e - int p + 1)"
      by (rule power_int_add) simp
    finally show ?thesis by (simp add: u_def)
  qed
  have pp: "(2::real) ^ p = 2 * 2 ^ (p - 1)"
    using assms(2) by (cases p) simp_all
  have "round_to_precision p y = y"
  proof (cases "m = 2 ^ p")
    case True
    then have yv: "y = 2 ^ p * u" by (simp add: y_def)
    have ey: "float_exponent y = e + 1"
    proof (rule float_exponent_eqI)
      show "2 powi (e + 1) \<le> \<bar>y\<bar>" using ypos by (simp add: yv e2)
      have "(2::real) powi (e + 1 + 1) = 2 powi (e + 1) * 2" by (rule two_powi_add_1)
      then show "\<bar>y\<bar> < 2 powi (e + 1 + 1)" using ypos u by (simp add: e2) (simp add: yv)
    qed
    have u2: "u * 2 = 2 powi (e + 1 - int p + 1)"
    proof -
      have "e + 1 - int p + 1 = (e - int p + 1) + 1" by simp
      then show ?thesis by (simp only: two_powi_add_1 u_def)
    qed
    have "y / (u * 2) = 2 ^ (p - 1)" using u by (simp add: yv pp)
    then have "round_half_even (y / (u * 2)) = 2 ^ (p - 1)"
      by (simp only: round_half_even_power2)
    then have "of_int (round_half_even (y / (u * 2))) * (u * 2) = y"
      by (simp add: yv pp)
    moreover have "round_to_precision p y = of_int (round_half_even (y / (u * 2))) * (u * 2)"
    proof (rule round_to_precision_eq)
      show "y \<noteq> 0" using ypos by simp
      show "float_exponent y = e + 1" by (rule ey)
      show "u * 2 = 2 powi (e + 1 - int p + 1)" by (rule u2)
    qed
    ultimately show ?thesis by (simp only:)
  next
    case False
    with sb(2) have "m + 1 \<le> 2 ^ p" by simp
    then have "(of_int (m + 1) :: real) \<le> of_int (2 ^ p)" by (simp only: of_int_le_iff)
    then have m1: "of_int m + 1 \<le> (2::real) ^ p" by simp
    have "(of_int (2 ^ (p - 1)) :: real) \<le> of_int m" using sb(1) by (simp only: of_int_le_iff)
    then have m0: "(2::real) ^ (p - 1) \<le> of_int m" by simp
    have ey: "float_exponent y = e"
    proof (rule float_exponent_eqI)
      have "2 ^ (p - 1) * u \<le> y" unfolding y_def using m0 u by (intro mult_right_mono) simp_all
      then show "2 powi e \<le> \<bar>y\<bar>" using ypos by (simp add: e1)
      have "y < (of_int m + 1) * u" using u by (simp add: algebra_simps y_def)
      also have "\<dots> \<le> 2 ^ p * u" using m1 u by (intro mult_right_mono) simp_all
      finally show "\<bar>y\<bar> < 2 powi (e + 1)" using ypos by (simp add: e2)
    qed
    have "y / u = of_int m" using u by (simp add: y_def)
    then have "round_half_even (y / u) = m" by (simp only: round_half_even_of_int)
    then have "of_int (round_half_even (y / u)) * u = y" by (simp add: y_def)
    moreover have "round_to_precision p y = of_int (round_half_even (y / u)) * u"
      using ypos ey by (intro round_to_precision_eq) (simp_all add: u_def)
    ultimately show ?thesis by (simp only:)
  qed
  then show ?thesis by (simp only: y)
qed

lemma round_to_precision_idem:
  assumes "0 < p"
  shows "round_to_precision p (round_to_precision p x) = round_to_precision p x"
proof -
  consider "0 < x" | "x = 0" | "0 < - x" by linarith
  then show ?thesis
  proof cases
    case 1
    then show ?thesis using assms by (rule round_to_precision_idem_pos)
  next
    case 2
    then show ?thesis by simp
  next
    case 3
    from round_to_precision_idem_pos [OF 3 assms] show ?thesis
      by (simp add: round_to_precision_minus)
  qed
qed

lemma to_float_mono: "x \<le> y \<Longrightarrow> to_float x \<le> to_float y"
  by (simp add: to_float_def round_to_precision_mono)

lemma to_double_mono: "x \<le> y \<Longrightarrow> to_double x \<le> to_double y"
  by (simp add: to_double_def round_to_precision_mono)

lemma to_float_0 [simp]: "to_float 0 = 0"
  by (simp add: to_float_def)

lemma to_double_0 [simp]: "to_double 0 = 0"
  by (simp add: to_double_def)

lemma to_float_eq_0_iff [simp]: "to_float x = 0 \<longleftrightarrow> x = 0"
  by (simp add: to_float_def round_to_precision_eq_0_iff)

lemma to_double_eq_0_iff [simp]: "to_double x = 0 \<longleftrightarrow> x = 0"
  by (simp add: to_double_def round_to_precision_eq_0_iff)

lemma to_double_idem [simp]: "to_double (to_double x) = to_double x"
  by (simp add: to_double_def round_to_precision_idem)

lemma to_float_idem [simp]: "to_float (to_float x) = to_float x"
  by (simp add: to_float_def round_to_precision_idem)

lemma to_double_double: "to_double (2 * x) = 2 * to_double x"
  by (simp add: to_double_def round_to_precision_double)

lemma to_double_2: "to_double 2 = 2"
  by code_simp

lemma to_float_pos: "0 < x \<Longrightarrow> 0 < to_float x"
  by (simp add: to_float_def round_to_precision_pos)

lemma to_double_pos: "0 < x \<Longrightarrow> 0 < to_double x"
  by (simp add: to_double_def round_to_precision_pos)

lemma to_float_nonneg: "0 \<le> x \<Longrightarrow> 0 \<le> to_float x"
  using to_float_mono [of 0 x] by simp

lemma to_double_nonneg: "0 \<le> x \<Longrightarrow> 0 \<le> to_double x"
  using to_double_mono [of 0 x] by simp

text \<open>Rounding changes a value by less than a factor of two.\<close>

lemma round_to_precision_le_double:
  assumes "0 < x" and "0 < p"
  shows "round_to_precision p x \<le> 2 * x" and "x \<le> 2 * round_to_precision p x"
proof -
  have x: "x \<noteq> 0" "\<bar>x\<bar> = x" using assms(1) by simp_all
  note b = float_exponent_bounds [OF x(1), unfolded x(2)]
  note r = round_to_precision_bracket [OF assms]
  have e: "(2::real) powi (float_exponent x + 1) = 2 powi float_exponent x * 2"
    by (rule two_powi_add_1)
  show "round_to_precision p x \<le> 2 * x" using b(1) r(2) e by linarith
  show "x \<le> 2 * round_to_precision p x" using b(2) r(1) e by linarith
qed

lemma to_float_le_double: "0 \<le> x \<Longrightarrow> to_float x \<le> 2 * x"
  using round_to_precision_le_double(1) [of x 24] by (cases "x = 0") (simp_all add: to_float_def)

lemma to_float_ge_half: "0 \<le> x \<Longrightarrow> x \<le> 2 * to_float x"
  using round_to_precision_le_double(2) [of x 24] by (cases "x = 0") (simp_all add: to_float_def)

lemma to_float_minus: "to_float (- x) = - to_float x"
  by (simp add: to_float_def round_to_precision_minus)

lemma to_float_abs_le: "\<bar>to_float x\<bar> \<le> 2 * \<bar>x\<bar>"
proof (cases "0 \<le> x")
  case True
  then show ?thesis using to_float_le_double [of x] to_float_nonneg [of x] by simp
next
  case False
  then have "0 \<le> - x" by simp
  from to_float_le_double [OF this] to_float_nonneg [OF this] False
  show ?thesis by (simp add: to_float_minus)
qed

subsection \<open>Rounding to an integer\<close>

lemma c_round_mono: "x \<le> y \<Longrightarrow> c_round x \<le> c_round y"
proof -
  assume xy: "x \<le> y"
  consider "0 \<le> x" | "y < 0" | "x < 0" "0 \<le> y" by linarith
  then show ?thesis
  proof cases
    case 1
    with xy show ?thesis by (simp add: c_round_def floor_mono)
  next
    case 2
    with xy show ?thesis by (simp add: c_round_def ceiling_mono)
  next
    case 3
    have "\<lceil>x - 1 / 2\<rceil> \<le> 0" using 3 by (simp add: ceiling_le_iff)
    moreover have "0 \<le> \<lfloor>y + 1 / 2\<rfloor>" using 3 by (simp add: le_floor_iff)
    ultimately have "\<lceil>x - 1 / 2\<rceil> \<le> \<lfloor>y + 1 / 2\<rfloor>" by linarith
    with 3 show ?thesis by (simp add: c_round_def)
  qed
qed

lemma c_round_of_int: "c_round (of_int z) = z"
proof -
  have "\<lfloor>of_int z + (1 / 2 :: real)\<rfloor> = z" "\<lceil>of_int z - (1 / 2 :: real)\<rceil> = z" by linarith+
  then show ?thesis by (simp add: c_round_def)
qed

lemma c_round_bounds:
  assumes "of_int l \<le> x" and "x \<le> of_int u"
  shows "l \<le> c_round x" and "c_round x \<le> u"
  using c_round_mono [OF assms(1)] c_round_mono [OF assms(2)] by (simp_all add: c_round_of_int)

subsection \<open>Row indices of the thresholds\<close>

lemma vrange_pos: "0 < GetVoltageRange s \<Longrightarrow> 0 < vrange s"
  by (simp add: vrange_def to_float_pos)

lemma volts_per_row_pos:
  assumes "0 < GetVoltageRange s" and "0 < GetHeight din"
  shows "0 < volts_per_row s din"
proof -
  have "0 < to_float (real (GetHeight din))" using assms(2) by (intro to_float_pos) simp
  with vrange_pos [OF assms(1)] have "0 < vrange s / to_float (real (GetHeight din))"
    by simp
  then show ?thesis unfolding volts_per_row_def by (rule to_float_pos)
qed

lemma row_bin_mono:
  assumes "0 < GetVoltageRange s" and "v \<le> v'"
    and "row_bin s din v = Inr m" and "row_bin s din v' = Inr n"
  shows "m \<le> n"
proof (cases "GetHeight din = 0")
  case True
  with assms show ?thesis by (simp add: row_bin_def split: if_splits)
next
  case False
  let ?q = "\<lambda>u. c_round (to_float (to_float (u - volts_at_bottom s din)
                                     / volts_per_row s din))"
  have r: "vrange s \<noteq> 0" using vrange_pos [OF assms(1)] by simp
  have "0 < volts_per_row s din" using assms(1) False by (simp add: volts_per_row_pos)
  moreover have "to_float (v - volts_at_bottom s din) \<le> to_float (v' - volts_at_bottom s din)"
    using assms(2) by (intro to_float_mono) simp
  ultimately have "to_float (v - volts_at_bottom s din) / volts_per_row s din
          \<le> to_float (v' - volts_at_bottom s din) / volts_per_row s din"
    by (simp add: divide_right_mono)
  then have q: "?q v \<le> ?q v'" by (intro c_round_mono to_float_mono)
  from r assms(3) False have m: "m = min (nat (?q v)) (GetHeight din - 1)"
    by (auto simp: row_bin_def float_to_size_t_def split: if_splits)
  from r assms(4) False have n: "n = min (nat (?q v')) (GetHeight din - 1)"
    by (auto simp: row_bin_def float_to_size_t_def split: if_splits)
  from q have "nat (?q v) \<le> nat (?q v')" by (rule nat_mono)
  then show ?thesis unfolding m n by (simp add: min_le_iff_disj)
qed

lemma row_bin_bound:
  assumes "row_bin s din v = Inr n" and "0 < GetHeight din"
  shows "n \<le> GetHeight din - 1"
  using assms by (auto simp: row_bin_def split: if_splits sum.splits)

lemma ordered_voltages_le:
  "ordered_voltages a b = (vs, ve) \<Longrightarrow> vs \<le> ve \<and> {vs, ve} = {a, b}"
  by (auto simp: ordered_voltages_def split: if_splits)

lemma duration_mv_nonneg:
  assumes "0 < GetVoltageRange s"
  shows "0 \<le> duration_mv s din"
proof -
  have "0 \<le> to_float (real (GetHeight din))" by (intro to_float_nonneg) simp
  with vrange_pos [OF assms] have "0 \<le> vrange s / to_float (real (GetHeight din))" by simp
  then have "0 \<le> volts_per_row s din" unfolding volts_per_row_def by (rule to_float_nonneg)
  then show ?thesis unfolding duration_mv_def by (intro to_float_nonneg) simp
qed

text \<open>
  With a positive voltage range and fewer than \<open>2^24\<close> rows, a threshold inside the
  represented range converts to a row index.
\<close>

lemma height_float_bounds:
  assumes "0 < GetHeight din"
  shows "1 / 2 \<le> to_float (real (GetHeight din))"
    and "to_float (real (GetHeight din)) \<le> 2 * real (GetHeight din)"
proof -
  have "1 \<le> real (GetHeight din)" using assms by simp
  with to_float_ge_half [of "real (GetHeight din)"]
  show "1 / 2 \<le> to_float (real (GetHeight din))" by simp
  show "to_float (real (GetHeight din)) \<le> 2 * real (GetHeight din)"
    by (rule to_float_le_double) simp
qed

lemma vrange_idem: "to_float (vrange s) = vrange s"
  by (simp add: vrange_def)

lemma row_bin_represented:
  assumes r: "0 < GetVoltageRange s" and h: "0 < GetHeight din" "GetHeight din < 2 ^ 24"
    and v: "volts_at_bottom s din \<le> v" "v \<le> volts_at_bottom s din + vrange s"
  shows "\<exists>n. row_bin s din v = Inr n"
proof -
  define H where "H = to_float (real (GetHeight din))"
  define q0 where "q0 = to_float (v - volts_at_bottom s din)"
  define vpr where "vpr = volts_per_row s din"
  have Hb: "1 / 2 \<le> H" "H \<le> 2 * real (GetHeight din)"
    using height_float_bounds [OF h(1)] by (simp_all add: H_def)
  have vr: "0 < vrange s" using r by (rule vrange_pos)
  have vpr: "0 < vpr" using r h(1) by (simp add: vpr_def volts_per_row_pos)
  have "vrange s / H \<le> 2 * vpr"
    unfolding vpr_def volts_per_row_def H_def
    using vr Hb(1) by (intro to_float_ge_half) (simp add: H_def)
  then have vv: "vrange s \<le> 2 * vpr * H" using Hb(1) by (simp add: pos_divide_le_eq)
  have q0: "0 \<le> q0" "q0 \<le> vrange s"
  proof -
    show "0 \<le> q0" unfolding q0_def using v(1) by (intro to_float_nonneg) simp
    have "q0 \<le> to_float (vrange s)" unfolding q0_def using v(2) by (intro to_float_mono) simp
    then show "q0 \<le> vrange s" by (simp only: vrange_idem)
  qed
  have "q0 \<le> 2 * H * vpr" using q0(2) vv by (simp add: mult.commute mult.left_commute)
  then have quo: "q0 / vpr \<le> 2 * H" using vpr by (simp add: pos_divide_le_eq)
  have quo0: "0 \<le> q0 / vpr" using q0(1) vpr by simp
  define q where "q = to_float (q0 / vpr)"
  have "0 \<le> q" unfolding q_def using quo0 by (rule to_float_nonneg)
  moreover have "q \<le> 2 * (q0 / vpr)" unfolding q_def using quo0 by (rule to_float_le_double)
  ultimately have qb: "of_int 0 \<le> q" "q \<le> of_int (8 * int (GetHeight din))"
    using quo Hb(2) by simp_all
  have c: "0 \<le> c_round q" "c_round q \<le> 8 * int (GetHeight din)"
    using c_round_bounds [OF qb] by simp_all
  have "8 * int (GetHeight din) < 2 ^ 64" using h(2) by simp
  with c have "float_to_size_t (c_round q) = Inr (nat (c_round q))"
    by (simp add: float_to_size_t_def)
  moreover have "vrange s \<noteq> 0" "GetHeight din \<noteq> 0" using vr h(1) by simp_all
  ultimately show ?thesis
    by (simp add: row_bin_def q_def q0_def vpr_def)
qed


lemma volts_per_row_le:
  assumes r: "0 < GetVoltageRange s" and h: "0 < GetHeight din"
  shows "volts_per_row s din \<le> 4 * vrange s"
proof -
  define H where "H = to_float (real (GetHeight din))"
  have Hb: "1 / 2 \<le> H" using height_float_bounds(1) [OF h] by (simp add: H_def)
  have vr: "0 < vrange s" using r by (rule vrange_pos)
  have "vrange s / H \<le> vrange s / (1 / 2)" using Hb vr by (intro divide_left_mono) simp_all
  then have q: "vrange s / H \<le> 2 * vrange s" by simp
  have "0 \<le> vrange s / H" using vr Hb by simp
  then have "to_float (vrange s / H) \<le> 2 * (vrange s / H)" by (rule to_float_le_double)
  with q show ?thesis by (simp add: volts_per_row_def H_def)
qed

lemma demo_bins: "row_bins demo_input demo_eye 1 (- 1) = Inr (0, 1)"
  by code_simp

text \<open>
  With a positive voltage range, for thresholds given in either order: whenever the two
  row indices are computed, \<open>start_bin \<le> end_bin\<close>, and \<open>end_bin\<close> is below the height.
\<close>

lemma row_bins_ordered:
  assumes "0 < GetVoltageRange s" and "row_bins s din a b = Inr (start_bin, end_bin)"
  shows "start_bin \<le> end_bin" and "0 < GetHeight din \<Longrightarrow> end_bin \<le> GetHeight din - 1"
proof -
  obtain vs ve where ov: "ordered_voltages (to_float a) (to_float b) = (vs, ve)"
    by (cases "ordered_voltages (to_float a) (to_float b)")
  with assms(2) have sb: "row_bin s din vs = Inr start_bin"
    and eb: "row_bin s din ve = Inr end_bin"
    by (auto simp: row_bins_def split: sum.splits)
  from ov have "vs \<le> ve" by (simp add: ordered_voltages_le)
  then show "start_bin \<le> end_bin" using sb eb by (intro row_bin_mono [OF assms(1)])
  show "end_bin \<le> GetHeight din - 1" if "0 < GetHeight din"
    using eb that by (rule row_bin_bound)
qed

text \<open>
  C3. On the raster of Scenario A the thresholds -2 V and 0.5 V, in either order, do not
  yield a pair of row indices with \<open>start_bin \<le> end_bin\<close>: the lower threshold lies below
  the bottom of the raster, its row position rounds to -32, and the conversion of -32 to
  \<open>size_t\<close> is undefined, while 0.5 V alone maps to row 48.
\<close>

theorem row_bins_below_bottom:
  "row_bins scenario_A_input scenario_A_eye (- 2) (1 / 2) = Inl UndefinedConversion \<and>
   row_bins scenario_A_input scenario_A_eye (1 / 2) (- 2) = Inl UndefinedConversion \<and>
   row_bin scenario_A_input scenario_A_eye (1 / 2) = Inr 48"
  by code_simp

text \<open>
  C4. On the raster of Scenario A (64 rows, bottom at -1 V, top at +1 V) the threshold
  -2 V lies below the bottom. Its row position rounds to -32, and the conversion of -32 to
  the unsigned \<open>size_t\<close> is undefined: no row index 0 is produced. The thresholds -0.5 V
  and 0.5 V map to rows 16 and 48, and +2 V, above the top, is clamped to row 63.
\<close>

theorem row_bin_below_bottom:
  "row_bin scenario_A_input scenario_A_eye (- 2) = Inl UndefinedConversion \<and>
   row_bin scenario_A_input scenario_A_eye (- 1 / 2) = Inr 16 \<and>
   row_bin scenario_A_input scenario_A_eye (1 / 2) = Inr 48 \<and>
   row_bin scenario_A_input scenario_A_eye 2 = Inr 63"
  by code_simp

lemma row_bins_commute: "row_bins s din a b = row_bins s din b a"
  by (cases "to_float a = to_float b") (auto simp: row_bins_def ordered_voltages_def)

text \<open>
  C8. \<open>Refresh\<close> is commutative in its two threshold parameters: with Start Voltage \<open>a\<close> and
  End Voltage \<open>b\<close> it publishes the same outputs (sparse waveform and scalar, or the same
  failure) as with Start Voltage \<open>b\<close> and End Voltage \<open>a\<close>.
\<close>

theorem Refresh_thresholds_commute:
  "outputs (Refresh (f\<lparr>m_startVoltage := a, m_endVoltage := b\<rparr>)) =
   outputs (Refresh (f\<lparr>m_startVoltage := b, m_endVoltage := a\<rparr>))"
proof -
  have "outputs (refresh_eye (f\<lparr>m_startVoltage := a, m_endVoltage := b\<rparr>) s din) =
        outputs (refresh_eye (f\<lparr>m_startVoltage := b, m_endVoltage := a\<rparr>) s din)" for s din
    by (simp add: refresh_eye_def outputs_def row_bins_commute [of s din a b]
             split: sum.splits prod.splits)
  then show ?thesis
    by (simp add: Refresh_def VerifyAllInputsOK_def outputs_def split: option.splits)
qed

subsection \<open>The scan of one row\<close>

lemma Max_insert_max:
  fixes a :: int
  assumes "finite S"
  shows "Max (insert (max a b) S) = Max (insert a (insert b S))"
  using assms by (cases "S = {}") (simp_all add: max.assoc)

lemma Min_insert_min:
  fixes a :: int
  assumes "finite S"
  shows "Min (insert (min a b) S) = Min (insert a (insert b S))"
  using assms by (cases "S = {}") (simp_all add: min.assoc)

text \<open>
  The inner loop, started at \<open>dx\<close> with the pair \<open>(cl, cr)\<close>, folds the columns it still
  visits into the pair: the columns \<open>1 .. xc - dx\<close> on the left and
  \<open>xc + dx .. 2 * xc - 1\<close> on the right.
\<close>

lemma edge_scan_eq:
  "edge_scan row xc dx (cl, cr) =
     (Max (insert cl {x \<in> {1..xc - dx}. row x > ber_max}),
      Min (insert cr {x \<in> {xc + dx..2 * xc - 1}. row x > ber_max}))"
proof (induction row xc dx "(cl, cr)" arbitrary: cl cr rule: edge_scan.induct)
  case (1 row xc dx cleft cright)
  show ?case
  proof (cases "dx < xc")
    case False
    then have "{1..xc - dx} = {}" "{xc + dx..2 * xc - 1} = {}" by auto
    with False show ?thesis by (simp add: edge_scan.simps)
  next
    case True
    let ?L = "{x \<in> {1..xc - (dx + 1)}. row x > ber_max}"
    let ?R = "{x \<in> {xc + (dx + 1)..2 * xc - 1}. row x > ber_max}"
    have "finite ?L" by (rule finite_subset [where B = "{1..xc - (dx + 1)}"]) auto
    moreover have "finite ?R"
      by (rule finite_subset [where B = "{xc + (dx + 1)..2 * xc - 1}"]) auto
    ultimately have fin: "finite ?L" "finite ?R" .
    have L0: "{1..xc - dx} = insert (xc - dx) {1..xc - (dx + 1)}"
      using True by auto
    have R0: "{xc + dx..2 * xc - 1} = insert (xc + dx) {xc + (dx + 1)..2 * xc - 1}"
      using True by auto
    have L: "{x \<in> {1..xc - dx}. row x > ber_max} =
               (if row (xc - dx) > ber_max then insert (xc - dx) ?L else ?L)"
      unfolding L0 by auto
    have R: "{x \<in> {xc + dx..2 * xc - 1}. row x > ber_max} =
               (if row (xc + dx) > ber_max then insert (xc + dx) ?R else ?R)"
      unfolding R0 by auto
    have "edge_scan row xc dx (cleft, cright) =
            edge_scan row xc (dx + 1)
              (if row (xc - dx) > ber_max then max cleft (xc - dx) else cleft,
               if row (xc + dx) > ber_max then min cright (xc + dx) else cright)"
      using True by (subst edge_scan.simps) simp
    also have "\<dots> =
        (Max (insert (if row (xc - dx) > ber_max then max cleft (xc - dx) else cleft) ?L),
         Min (insert (if row (xc + dx) > ber_max then min cright (xc + dx) else cright) ?R))"
      using True by (rule 1)
    also have "\<dots> = (Max (insert cleft {x \<in> {1..xc - dx}. row x > ber_max}),
                     Min (insert cright {x \<in> {xc + dx..2 * xc - 1}. row x > ber_max}))"
      unfolding L R using fin by (simp add: Max_insert_max Min_insert_min)
    finally show ?thesis .
  qed
qed

text \<open>The scan of row \<open>i\<close> returns the two edges described above.\<close>

lemma scan_row_closures: "scan_row din i = (closure_left din i, closure_right din i)"
proof -
  let ?w = "int (GetWidth din)"
  let ?xc = "xcenter din"
  have xc: "0 \<le> ?xc" "2 * ?xc \<le> ?w" "?w \<le> 2 * ?xc + 1"
    by (simp_all add: xcenter_def)
  have "insert 0 {x \<in> {1..?xc - 0}. row_at din i x > ber_max} =
        insert 0 {x \<in> {0..?xc}. occupied din i x}"
    using xc by (auto simp: occupied_def ber_max_def)
  moreover have "insert (?w - 1) {x \<in> {?xc + 0..2 * ?xc - 1}. row_at din i x > ber_max} =
        insert (?w - 1) {x \<in> {?xc..?w - 1}. occupied din i x}"
    using xc by (auto simp: occupied_def ber_max_def)
  ultimately show ?thesis
    by (simp only: scan_row_def edge_scan_eq closure_left_def closure_right_def)
qed

text \<open>
  The bound checked by \<open>scan_out_of_bounds\<close> is exact: it fails precisely when every read
  of the inner loop in row \<open>i\<close> stays inside the buffer.
\<close>

lemma scan_out_of_bounds_iff:
  "\<not> scan_out_of_bounds din i \<longleftrightarrow>
     (\<forall>dx. 0 \<le> dx \<and> dx < xcenter din \<longrightarrow>
        i * GetWidth din + nat (xcenter din - dx) < length (GetData din) \<and>
        i * GetWidth din + nat (xcenter din + dx) < length (GetData din))"
proof
  assume nb: "\<not> scan_out_of_bounds din i"
  show "\<forall>dx. 0 \<le> dx \<and> dx < xcenter din \<longrightarrow>
        i * GetWidth din + nat (xcenter din - dx) < length (GetData din) \<and>
        i * GetWidth din + nat (xcenter din + dx) < length (GetData din)"
  proof (intro allI impI)
    fix dx assume dx: "0 \<le> dx \<and> dx < xcenter din"
    then have "i * GetWidth din + nat (2 * xcenter din - 1) < length (GetData din)"
      using nb by (simp add: scan_out_of_bounds_def)
    moreover have "nat (xcenter din - dx) \<le> nat (2 * xcenter din - 1)"
      "nat (xcenter din + dx) \<le> nat (2 * xcenter din - 1)"
      using dx by linarith+
    ultimately show "i * GetWidth din + nat (xcenter din - dx) < length (GetData din) \<and>
        i * GetWidth din + nat (xcenter din + dx) < length (GetData din)"
      by linarith
  qed
next
  assume all: "\<forall>dx. 0 \<le> dx \<and> dx < xcenter din \<longrightarrow>
        i * GetWidth din + nat (xcenter din - dx) < length (GetData din) \<and>
        i * GetWidth din + nat (xcenter din + dx) < length (GetData din)"
  show "\<not> scan_out_of_bounds din i"
  proof (cases "0 < xcenter din")
    case False
    then show ?thesis by (simp add: scan_out_of_bounds_def)
  next
    case True
    then have "0 \<le> xcenter din - 1 \<and> xcenter din - 1 < xcenter din" by simp
    with all
    have "i * GetWidth din + nat (xcenter din + (xcenter din - 1)) < length (GetData din)"
      by blast
    moreover have "xcenter din + (xcenter din - 1) = 2 * xcenter din - 1" by simp
    ultimately show ?thesis by (simp add: scan_out_of_bounds_def)
  qed
qed

text \<open>
  On a raster with one value per cell, the scan of every row below the height stays inside
  the buffer.
\<close>

lemma scan_in_bounds:
  assumes "wf_eye din" and "i < GetHeight din"
  shows "\<not> scan_out_of_bounds din i"
proof -
  let ?w = "GetWidth din"
  have "2 * xcenter din \<le> int ?w" by (simp add: xcenter_def)
  then have x: "0 < xcenter din \<Longrightarrow> nat (2 * xcenter din - 1) < ?w" by linarith
  have "Suc i * ?w \<le> GetHeight din * ?w" using assms(2) by (intro mult_le_mono1) simp
  then have "i * ?w + ?w \<le> length (GetData din)"
    using assms(1) by (simp add: wf_eye_def mult.commute)
  with x show ?thesis unfolding scan_out_of_bounds_def by linarith
qed

subsection \<open>The loop over the rows\<close>

text \<open>
  A run of the row loop that returns has extended the three output sequences by one entry
  per row from \<open>i\<close> to \<open>eb\<close> and folded the rows' edges into \<open>far_left\<close> and \<open>far_right\<close>.
\<close>

lemma row_loop_result:
  "row_loop din d b i eb (fl, fr, cap) = Inr (fl', fr', cap') \<Longrightarrow>
     fl' = Min (insert fl (closure_left din ` {i..eb})) \<and>
     fr' = Max (insert fr (closure_right din ` {i..eb})) \<and>
     cap' = cap\<lparr>m_offsets := m_offsets cap @ map (row_offset d b) [i..<Suc eb],
                m_durations := m_durations cap @ replicate (Suc eb - i) (c_round d),
                m_samples := m_samples cap @ map (row_width din) [i..<Suc eb]\<rparr>"
proof (induction din d b i eb "(fl, fr, cap)" arbitrary: fl fr cap rule: row_loop.induct)
  case (1 din d b i eb fl fr cap)
  show ?case
  proof (cases "i \<le> eb")
    case False
    with "1.prems" show ?thesis
      by (simp add: row_loop.simps)
  next
    case True
    from "1.prems" True obtain off dur where
      inb: "\<not> scan_out_of_bounds din i" and
      off: "float_to_int64 (row_offset d b i) = Inr off" and
      dur: "float_to_int64 (c_round d) = Inr dur" and
      rec: "row_loop din d b (i + 1) eb
              (min fl (closure_left din i), max fr (closure_right din i),
               cap\<lparr>m_offsets := m_offsets cap @ [off],
                   m_durations := m_durations cap @ [dur],
                   m_samples := m_samples cap
                     @ [row_value din (closure_right din i - closure_left din i)]\<rparr>)
            = Inr (fl', fr', cap')"
      by (subst (asm) row_loop.simps)
         (auto simp: scan_row_closures split: sum.splits if_splits)
    have offv: "off = row_offset d b i" and durv: "dur = c_round d"
      using off dur by (auto simp: float_to_int64_def split: if_splits)
    have S: "{i..eb} = insert i {i + 1..eb}" using True by auto
    have U: "[i..<Suc eb] = i # [i + 1..<Suc eb]" using True by (simp add: upt_conv_Cons)
    have R: "Suc eb - i = Suc (Suc eb - (i + 1))" using True by simp
    note IH = "1.hyps" [OF True inb scan_row_closures [symmetric, of din i] off dur rec]
    show ?thesis
      unfolding S U R using IH
      by (simp add: offv durv Max_insert_max Min_insert_min row_width_def)
  qed
qed

lemma closure_left_bounds: "0 \<le> closure_left din i \<and> closure_left din i \<le> xcenter din"
proof -
  let ?S = "insert 0 {x \<in> {0..xcenter din}. occupied din i x}"
  have "finite {x \<in> {0..xcenter din}. occupied din i x}"
    by (rule finite_subset [where B = "{0..xcenter din}"]) auto
  then have fin: "finite ?S" by (rule finite.insertI)
  have xc: "0 \<le> xcenter din" by (simp add: xcenter_def)
  have "Max ?S \<in> ?S" using fin by (intro Max_in) auto
  then show ?thesis unfolding closure_left_def using xc by auto
qed

lemma closure_right_bounds:
  assumes "0 < GetWidth din"
  shows "xcenter din \<le> closure_right din i \<and> closure_right din i \<le> int (GetWidth din) - 1"
proof -
  let ?S = "insert (int (GetWidth din) - 1) {x \<in> {xcenter din..int (GetWidth din) - 1}. occupied din i x}"
  have "finite {x \<in> {xcenter din..int (GetWidth din) - 1}. occupied din i x}"
    by (rule finite_subset [where B = "{xcenter din..int (GetWidth din) - 1}"]) auto
  then have fin: "finite ?S" by (rule finite.insertI)
  have xc: "xcenter din \<le> int (GetWidth din) - 1" using assms by (simp add: xcenter_def)
  have "Min ?S \<in> ?S" using fin by (intro Min_in) auto
  then show ?thesis unfolding closure_right_def using xc by auto
qed

lemma Refresh_InrE:
  assumes "Refresh f = Inr f'" "m_input0 f = Some s" "GetInputWaveform s = Some din"
  obtains sb eb fl fr cap where
    "row_bins s din (m_startVoltage f) (m_endVoltage f) = Inr (sb, eb)"
    "GetWidth din \<noteq> 0" "GetHeight din \<noteq> 0"
    "row_loop din (duration_mv s din) (base_mv s din) sb eb
       (INT64_MAX, INT64_MIN, SetupEmptySparseAnalogOutputWaveform\<lparr>m_timescale := 1\<rparr>)
     = Inr (fl, fr, cap)"
    "INT64_MIN \<le> fr - fl" "fr - fl \<le> INT64_MAX"
    "f' = f\<lparr>m_data0 := Some cap,
            m_value1 := Finite (scalar_value din (fr - fl))\<rparr>"
  using assms
  by (auto simp: Refresh_def VerifyAllInputsOK_def refresh_eye_def
           split: if_splits sum.splits prod.splits)

lemma Min_insert_top:
  fixes a :: int
  assumes "finite S" "S \<noteq> {}" "\<forall>x\<in>S. x \<le> a"
  shows "Min (insert a S) = Min S"
proof -
  have "Min S \<in> S" using assms by simp
  then have "Min S \<le> a" using assms by blast
  then show ?thesis using assms by (simp add: min_absorb2)
qed

lemma Max_insert_bot:
  fixes a :: int
  assumes "finite S" "S \<noteq> {}" "\<forall>x\<in>S. a \<le> x"
  shows "Max (insert a S) = Max S"
proof -
  have "Max S \<in> S" using assms by simp
  then have "a \<le> Max S" using assms by blast
  then show ?thesis using assms by (simp add: max_absorb2)
qed

text \<open>What a successful run has computed.\<close>

lemma Refresh_summary:
  assumes ok: "Refresh f = Inr f'" "m_input0 f = Some s" "GetInputWaveform s = Some din"
    and bins: "row_bins s din (m_startVoltage f) (m_endVoltage f) = Inr (sb, eb)"
  shows "sb \<le> eb"
    and "m_data0 f' = Some
           \<lparr>m_timescale = 1,
            m_offsets = map (row_offset (duration_mv s din) (base_mv s din)) [sb..<Suc eb],
            m_durations = replicate (Suc eb - sb) (c_round (duration_mv s din)),
            m_samples = map (row_width din) [sb..<Suc eb]\<rparr>"
    and "GetWidth din < 2 ^ 63 \<Longrightarrow>
         m_value1 f' = Finite (scalar_value din
            (Max (closure_right din ` {sb..eb}) - Min (closure_left din ` {sb..eb})))"
proof -
  from ok obtain sb' eb' fl fr cap where
    bins': "row_bins s din (m_startVoltage f) (m_endVoltage f) = Inr (sb', eb')" and
    w: "GetWidth din \<noteq> 0" and
    loop: "row_loop din (duration_mv s din) (base_mv s din) sb' eb'
       (INT64_MAX, INT64_MIN, SetupEmptySparseAnalogOutputWaveform\<lparr>m_timescale := 1\<rparr>)
     = Inr (fl, fr, cap)" and
    rng: "INT64_MIN \<le> fr - fl" "fr - fl \<le> INT64_MAX" and
    f': "f' = f\<lparr>m_data0 := Some cap,
            m_value1 := Finite (scalar_value din (fr - fl))\<rparr>"
    by (rule Refresh_InrE)
  from bins bins' have [simp]: "sb' = sb" "eb' = eb" by simp_all
  have res:
    "fl = Min (insert INT64_MAX (closure_left din ` {sb..eb}))"
    "fr = Max (insert INT64_MIN (closure_right din ` {sb..eb}))"
    "cap = \<lparr>m_timescale = 1,
            m_offsets = map (row_offset (duration_mv s din) (base_mv s din)) [sb..<Suc eb],
            m_durations = replicate (Suc eb - sb) (c_round (duration_mv s din)),
            m_samples = map (row_width din) [sb..<Suc eb]\<rparr>"
    using row_loop_result [OF loop]
    by (simp_all add: SetupEmptySparseAnalogOutputWaveform_def)
  show le: "sb \<le> eb"
  proof (rule ccontr)
    assume "\<not> sb \<le> eb"
    then have "{sb..eb} = {}" by simp
    with res have "fl = INT64_MAX" "fr = INT64_MIN" by simp_all
    with rng show False by (simp add: INT64_MAX_def INT64_MIN_def)
  qed
  show "m_data0 f' = Some
           \<lparr>m_timescale = 1,
            m_offsets = map (row_offset (duration_mv s din) (base_mv s din)) [sb..<Suc eb],
            m_durations = replicate (Suc eb - sb) (c_round (duration_mv s din)),
            m_samples = map (row_width din) [sb..<Suc eb]\<rparr>"
    by (simp add: f' res(3))
  show "m_value1 f' = Finite (scalar_value din
            (Max (closure_right din ` {sb..eb}) - Min (closure_left din ` {sb..eb})))"
    if wb: "GetWidth din < 2 ^ 63"
  proof -
    have ne: "{sb..eb} \<noteq> {}" using le by simp
    have "\<forall>x\<in>closure_left din ` {sb..eb}. x \<le> INT64_MAX"
    proof
      fix x assume "x \<in> closure_left din ` {sb..eb}"
      then obtain i where "x = closure_left din i" by auto
      moreover have "xcenter din \<le> INT64_MAX"
        using wb by (simp add: xcenter_def INT64_MAX_def)
      ultimately show "x \<le> INT64_MAX" using closure_left_bounds [of din i] by simp
    qed
    then have fl: "fl = Min (closure_left din ` {sb..eb})"
      unfolding res(1) using ne by (intro Min_insert_top) auto
    have "\<forall>x\<in>closure_right din ` {sb..eb}. INT64_MIN \<le> x"
    proof
      fix x assume "x \<in> closure_right din ` {sb..eb}"
      then obtain i where "x = closure_right din i" by auto
      moreover have "INT64_MIN \<le> xcenter din"
        by (simp add: xcenter_def INT64_MIN_def)
      ultimately show "INT64_MIN \<le> x" using closure_right_bounds [of din i] w by simp
    qed
    then have fr: "fr = Max (closure_right din ` {sb..eb})"
      unfolding res(2) using ne by (intro Max_insert_bot) auto
    show ?thesis by (simp add: f' fl fr)
  qed
qed

text \<open>
  A row loop returns when its offsets and its duration fit \<open>int64_t\<close> and its scans stay
  inside the buffer.
\<close>

lemma row_loop_returns:
  assumes "INT64_MIN \<le> c_round d" and "c_round d \<le> INT64_MAX"
    and "\<forall>j\<in>{i..eb}. INT64_MIN \<le> row_offset d b j \<and>
                      row_offset d b j \<le> INT64_MAX"
    and "\<forall>j\<in>{i..eb}. \<not> scan_out_of_bounds din j"
  shows "\<exists>r. row_loop din d b i eb st = Inr r"
  using assms
proof (induction din d b i eb st rule: row_loop.induct)
  case (1 din d b i eb fl fr cap)
  show ?case
  proof (cases "i \<le> eb")
    case False
    then show ?thesis by (simp add: row_loop.simps)
  next
    case True
    obtain cl cr where sc: "scan_row din i = (cl, cr)" by (cases "scan_row din i")
    have off: "float_to_int64 (row_offset d b i) = Inr (row_offset d b i)"
      using "1.prems"(3) True by (simp add: float_to_int64_def)
    have dur: "float_to_int64 (c_round d) = Inr (c_round d)"
      using "1.prems"(1,2) by (simp add: float_to_int64_def)
    have rest: "\<forall>j\<in>{i + 1..eb}. INT64_MIN \<le> row_offset d b j \<and>
                      row_offset d b j \<le> INT64_MAX"
      "\<forall>j\<in>{i + 1..eb}. \<not> scan_out_of_bounds din j"
      using "1.prems"(3,4) by simp_all
    have inb: "\<not> scan_out_of_bounds din i" using "1.prems"(4) True by simp
    from "1.IH" [OF True inb sc [symmetric] off dur "1.prems"(1,2) rest]
    show ?thesis
      by (subst row_loop.simps) (simp add: True inb sc off dur)
  qed
qed

lemma far_edges:
  assumes loop: "row_loop din d b sb eb (INT64_MAX, INT64_MIN, cap0) = Inr (fl, fr, cap)"
    and le: "sb \<le> eb" and w: "0 < GetWidth din" "GetWidth din < 2 ^ 63"
  shows "fl = Min (closure_left din ` {sb..eb})" and "fr = Max (closure_right din ` {sb..eb})"
    and "0 \<le> fr - fl" and "fr - fl \<le> int (GetWidth din) - 1"
proof -
  have ne: "{sb..eb} \<noteq> {}" "sb \<in> {sb..eb}" using le by simp_all
  have xc: "xcenter din \<le> INT64_MAX" "INT64_MIN \<le> xcenter din"
    using w by (simp_all add: xcenter_def INT64_MAX_def INT64_MIN_def)
  have "closure_left din i \<le> INT64_MAX" for i
    using closure_left_bounds [of din i] xc by linarith
  then have "\<forall>x\<in>closure_left din ` {sb..eb}. x \<le> INT64_MAX" by blast
  then have "Min (insert INT64_MAX (closure_left din ` {sb..eb}))
             = Min (closure_left din ` {sb..eb})"
    using ne by (intro Min_insert_top) auto
  then show fl: "fl = Min (closure_left din ` {sb..eb})"
    using row_loop_result [OF loop] by simp
  have "INT64_MIN \<le> closure_right din i" for i
    using closure_right_bounds [OF w(1), of i] xc by linarith
  then have "\<forall>x\<in>closure_right din ` {sb..eb}. INT64_MIN \<le> x" by blast
  then have "Max (insert INT64_MIN (closure_right din ` {sb..eb}))
             = Max (closure_right din ` {sb..eb})"
    using ne by (intro Max_insert_bot) auto
  then show fr: "fr = Max (closure_right din ` {sb..eb})"
    using row_loop_result [OF loop] by simp
  have "fl \<in> closure_left din ` {sb..eb}" unfolding fl using ne by (intro Min_in) auto
  then have fl_b: "0 \<le> fl" "fl \<le> xcenter din" using closure_left_bounds [of din] by auto
  have "fr \<in> closure_right din ` {sb..eb}" unfolding fr using ne by (intro Max_in) auto
  then have fr_b: "xcenter din \<le> fr" "fr \<le> int (GetWidth din) - 1"
    using closure_right_bounds [OF w(1)] by auto
  from fl_b fr_b show "0 \<le> fr - fl" "fr - fl \<le> int (GetWidth din) - 1" by linarith+
qed

text \<open>
  \<open>Refresh\<close> returns a result on every well-formed raster of fewer than \<open>2^63\<close> columns
  and fewer than \<open>2^24\<close> rows, with a positive voltage range of at most \<open>2^20\<close> V, a
  bottom voltage within \<open>2^20\<close> V of zero, and both thresholds inside the represented
  range.
\<close>

lemma Refresh_returns:
  assumes "m_input0 f = Some s" and "GetInputWaveform s = Some din"
    and wf: "wf_eye din"
    and w: "0 < GetWidth din" "GetWidth din < 2 ^ 63"
    and h: "0 < GetHeight din" "GetHeight din < 2 ^ 24"
    and r: "0 < GetVoltageRange s"
    and v: "represented s din (m_startVoltage f)" "represented s din (m_endVoltage f)"
    and mv: "vrange s \<le> 2 ^ 20" "\<bar>volts_at_bottom s din\<bar> \<le> 2 ^ 20"
  shows "\<exists>f'. Refresh f = Inr f'"
proof -
  define d where "d = duration_mv s din"
  define b where "b = base_mv s din"
  let ?cap0 = "SetupEmptySparseAnalogOutputWaveform\<lparr>m_timescale := 1\<rparr>"
  obtain vs ve where ov:
    "ordered_voltages (to_float (m_startVoltage f)) (to_float (m_endVoltage f)) = (vs, ve)"
    by (cases "ordered_voltages (to_float (m_startVoltage f)) (to_float (m_endVoltage f))")
  then have rep: "volts_at_bottom s din \<le> vs" "vs \<le> volts_at_bottom s din + vrange s"
      "volts_at_bottom s din \<le> ve" "ve \<le> volts_at_bottom s din + vrange s"
    using v by (auto simp: ordered_voltages_def represented_def split: if_splits)
  from ov have vle: "vs \<le> ve" by (simp add: ordered_voltages_le)
  from rep obtain sb eb where sb: "row_bin s din vs = Inr sb" and eb: "row_bin s din ve = Inr eb"
    using row_bin_represented [OF r h] by blast
  have bins: "row_bins s din (m_startVoltage f) (m_endVoltage f) = Inr (sb, eb)"
    using ov sb eb by (simp add: row_bins_def)
  have le: "sb \<le> eb" using r vle sb eb by (rule row_bin_mono)
  have ebh: "eb \<le> GetHeight din - 1" using eb h(1) by (rule row_bin_bound)
  have d0: "0 \<le> d" unfolding d_def using r by (rule duration_mv_nonneg)
  have vpr0: "0 < volts_per_row s din" using r h(1) by (simp add: volts_per_row_pos)
  have "volts_per_row s din \<le> 4 * vrange s" using r h(1) by (rule volts_per_row_le)
  then have vpr: "volts_per_row s din \<le> 2 ^ 22" using mv(1) by simp
  have "d \<le> 2 * (volts_per_row s din * 1000)"
    unfolding d_def duration_mv_def using vpr0 by (intro to_float_le_double) simp
  then have d1: "d \<le> 2 ^ 33" using vpr by simp
  have "\<bar>b\<bar> \<le> 2 * \<bar>volts_at_bottom s din * 1000\<bar>"
    unfolding b_def base_mv_def by (rule to_float_abs_le)
  then have b1: "\<bar>b\<bar> \<le> 2 ^ 31" using mv(2) by (simp add: abs_mult)
  have rng: "INT64_MIN \<le> c_round x \<and> c_round x \<le> INT64_MAX"
    if "\<bar>x\<bar> \<le> 2 ^ 62" for x
  proof -
    have "of_int (- (2 ^ 62)) \<le> x" "x \<le> of_int (2 ^ 62)" using that by simp_all
    from c_round_bounds [OF this]
    show ?thesis by (simp add: INT64_MIN_def INT64_MAX_def)
  qed
  have durs: "INT64_MIN \<le> c_round d" "c_round d \<le> INT64_MAX"
    using rng [of d] d0 d1 by simp_all
  have offs: "\<forall>j\<in>{sb..eb}. INT64_MIN \<le> row_offset d b j \<and> row_offset d b j \<le> INT64_MAX"
  proof
    fix j assume "j \<in> {sb..eb}"
    then have "j < 2 ^ 24" using ebh h by auto
    then have "real j \<le> 2 ^ 24" by (metis less_imp_le of_nat_le_iff of_nat_numeral of_nat_power)
    define J where "J = to_float (real j)"
    have J0: "0 \<le> J" unfolding J_def by (intro to_float_nonneg) simp
    have "J \<le> 2 * real j" unfolding J_def by (intro to_float_le_double) simp
    then have J1: "J \<le> 2 ^ 25" using \<open>real j \<le> 2 ^ 24\<close> by simp
    have "J * d \<le> 2 ^ 25 * 2 ^ 33" using J0 J1 d0 d1 by (intro mult_mono) simp_all
    then have Jd1: "J * d \<le> 2 ^ 58" by simp
    have Jd0: "0 \<le> J * d" using J0 d0 by simp
    define P where "P = to_float (J * d)"
    have P0: "0 \<le> P" unfolding P_def using Jd0 by (rule to_float_nonneg)
    have "P \<le> 2 * (J * d)" unfolding P_def using Jd0 by (rule to_float_le_double)
    then have P1: "P \<le> 2 ^ 59" using Jd1 by simp
    have "\<bar>P + b\<bar> \<le> 2 ^ 60" using P0 P1 b1 by simp
    moreover have "\<bar>to_float (P + b)\<bar> \<le> 2 * \<bar>P + b\<bar>" by (rule to_float_abs_le)
    ultimately have "\<bar>to_float (P + b)\<bar> \<le> 2 ^ 62" by simp
    then show "INT64_MIN \<le> row_offset d b j \<and> row_offset d b j \<le> INT64_MAX"
      unfolding row_offset_def P_def J_def by (rule rng)
  qed
  have inb: "\<forall>j\<in>{sb..eb}. \<not> scan_out_of_bounds din j"
  proof
    fix j assume "j \<in> {sb..eb}"
    then have "j < GetHeight din" using ebh h(1) by auto
    with wf show "\<not> scan_out_of_bounds din j" by (rule scan_in_bounds)
  qed
  obtain fl fr cap where
    loop: "row_loop din d b sb eb (INT64_MAX, INT64_MIN, ?cap0) = Inr (fl, fr, cap)"
    using row_loop_returns [OF durs offs inb, of "(INT64_MAX, INT64_MIN, ?cap0)"]
    by (metis prod_cases3)
  have "0 \<le> fr - fl" "fr - fl \<le> int (GetWidth din) - 1"
    using far_edges(3,4) [OF loop le w] by simp_all
  then have "\<not> (fr - fl < INT64_MIN \<or> INT64_MAX < fr - fl)"
    using w(2) by (simp add: INT64_MIN_def INT64_MAX_def)
  then show ?thesis
    using assms(1,2) w(1) h(1) bins loop
    by (simp add: Refresh_def VerifyAllInputsOK_def refresh_eye_def d_def b_def)
qed

lemma tall_Refresh:
  "duration_mv tall_input tall_eye = 825 / 2 \<and>
   outputs (Refresh tall_filter)
     = Inr (Some \<lparr>m_timescale = 1, m_offsets = [0], m_durations = [413], m_samples = [1]\<rparr>,
            Finite 1)"
  by code_simp

lemma demo_Refresh:
  "Refresh demo_filter = Inr (demo_filter\<lparr>m_data0 := Some demo_cap, m_value1 := Finite 5\<rparr>)"
  by code_simp

lemma time_per_column_eq: "time_per_column din = fs_per_pixel din"
  by (simp add: time_per_column_def fs_per_pixel_def)

lemma scalar_value_eq: "scalar_value din cols = columns_time din cols"
  by (simp add: scalar_value_def columns_time_def time_per_column_eq mult.commute)

lemma row_value_eq: "row_value din cols = columns_time_float din cols"
  by (simp add: row_value_def columns_time_float_def columns_time_def time_per_column_eq
        mult.commute)

subsection \<open>The width of one row\<close>

text \<open>
  C1, as stated, fails where the centre column is occupied. On the one-row raster
  \<open>closed_eye\<close> only the centre column is occupied; the scan returns both edges at the
  centre and the published width is 0, whereas the edges taken strictly left and strictly
  right of the centre (columns 0 and 3) would give three columns, that is 3/2 time units.
\<close>

theorem row_width_strict_counterexample:
  "outputs (Refresh closed_filter) =
     Inr (Some \<lparr>m_timescale = 1, m_offsets = [- 500], m_durations = [1000], m_samples = [0]\<rparr>,
          Finite 0) \<and>
   columns_time_float closed_eye (spec_closure_right closed_eye 0 - spec_closure_left closed_eye 0)
     = 3 / 2"
  by code_simp

text \<open>
  C1, amended. For every eye raster and every scanned row \<open>i\<close> in \<open>[start_bin, end_bin]\<close> of
  a run that returns, the scan of the row yields \<open>closure_left\<close>, the rightmost occupied
  column at or left of the centre column (column 0 when there is none), and
  \<open>closure_right\<close>, the leftmost occupied column at or right of the centre column (the
  last column when there is none); a column is occupied iff its value exceeds
  \<open>FLT_EPSILON\<close>. The sample published for the row is
  \<open>(closure_right - closure_left) * time_per_column\<close> with
  \<open>time_per_column = 2 * unit_interval_width / raster_width\<close>, computed in \<open>double\<close> and
  stored as a \<open>float\<close>.
\<close>

theorem row_width_between_edges:
  assumes "m_input0 f = Some s" and "GetInputWaveform s = Some din"
    and "Refresh f = Inr f'"
    and "row_bins s din (m_startVoltage f) (m_endVoltage f) = Inr (start_bin, end_bin)"
    and "start_bin \<le> i" and "i \<le> end_bin"
  shows "scan_row din i = (closure_left din i, closure_right din i) \<and>
         (\<exists>cap. m_data0 f' = Some cap \<and> i - start_bin < length (m_samples cap) \<and>
            m_samples cap ! (i - start_bin) =
              to_float (to_double
                (to_double (real_of_int (closure_right din i - closure_left din i))
                 * time_per_column din)))"
proof -
  have idx: "i - start_bin < Suc end_bin - start_bin" using assms(5,6) by simp
  have "[start_bin..<Suc end_bin] ! (i - start_bin) = i"
    using assms(5,6) by (simp add: nth_upt del: upt_Suc)
  then have "map (row_width din) [start_bin..<Suc end_bin] ! (i - start_bin) = row_width din i"
    using idx by (simp del: upt_Suc)
  then show ?thesis
    using Refresh_summary(2) [OF assms(3,1,2,4)] idx
    by (simp add: scan_row_closures row_width_def row_value_eq columns_time_float_def
          columns_time_def del: upt_Suc)
qed

theorem row_width_between_edges_witness:
  "Refresh demo_filter = Inr (demo_filter\<lparr>m_data0 := Some demo_cap, m_value1 := Finite 5\<rparr>) \<and>
   row_bins demo_input demo_eye (m_startVoltage demo_filter) (m_endVoltage demo_filter)
     = Inr (0, 1) \<and>
   scan_row demo_eye 1 = (closure_left demo_eye 1, closure_right demo_eye 1) \<and>
   m_samples demo_cap ! 1 =
     to_float (to_double
       (to_double (real_of_int (closure_right demo_eye 1 - closure_left demo_eye 1))
        * time_per_column demo_eye))"
proof -
  have 1: "m_input0 demo_filter = Some demo_input" by (simp add: demo_filter_def)
  have 2: "GetInputWaveform demo_input = Some demo_eye" by (simp add: demo_input_def)
  have 3: "row_bins demo_input demo_eye (m_startVoltage demo_filter) (m_endVoltage demo_filter)
             = Inr (0, 1)"
    by (simp add: demo_filter_def demo_bins)
  show ?thesis
    using row_width_between_edges [OF 1 2 demo_Refresh 3, of 1] demo_Refresh 3
    by simp
qed

subsection \<open>The scalar output\<close>

text \<open>
  C2. For every eye input (of a width below \<open>2^63\<close>) on which \<open>Refresh\<close> returns, at least
  one row is scanned and the scalar output is
  \<open>(max closure_right - min closure_left) * time_per_column\<close>, computed in \<open>double\<close>, the
  maximum of the rows' right edges and the minimum of the rows' left edges being taken
  over all scanned rows \<open>start_bin .. end_bin\<close>, each over the rows on its own.
\<close>

theorem minwidth_envelope:
  assumes "m_input0 f = Some s" and "GetInputWaveform s = Some din"
    and "Refresh f = Inr f'"
    and "row_bins s din (m_startVoltage f) (m_endVoltage f) = Inr (start_bin, end_bin)"
    and "GetWidth din < 2 ^ 63"
  shows "start_bin \<le> end_bin \<and>
         m_value1 f' = Finite
           (to_double
              (to_double (real_of_int (Max ((snd \<circ> scan_row din) ` {start_bin..end_bin})
                                       - Min ((fst \<circ> scan_row din) ` {start_bin..end_bin})))
               * time_per_column din))"
proof -
  have "snd \<circ> scan_row din = closure_right din" "fst \<circ> scan_row din = closure_left din"
    by (simp_all add: fun_eq_iff scan_row_closures)
  then show ?thesis
    using Refresh_summary(1,3) [OF assms(3,1,2,4)] assms(5)
    by (simp add: scalar_value_eq columns_time_def)
qed

theorem minwidth_envelope_witness:
  "GetWidth demo_eye < 2 ^ 63 \<and>
   Refresh demo_filter = Inr (demo_filter\<lparr>m_data0 := Some demo_cap, m_value1 := Finite 5\<rparr>) \<and>
   row_bins demo_input demo_eye (m_startVoltage demo_filter) (m_endVoltage demo_filter)
     = Inr (0, 1) \<and>
   Finite 5 = Finite
           (to_double
              (to_double (real_of_int (Max ((snd \<circ> scan_row demo_eye) ` {0..1})
                                       - Min ((fst \<circ> scan_row demo_eye) ` {0..1})))
               * time_per_column demo_eye))"
proof -
  have 1: "m_input0 demo_filter = Some demo_input" by (simp add: demo_filter_def)
  have 2: "GetInputWaveform demo_input = Some demo_eye" by (simp add: demo_input_def)
  have 3: "row_bins demo_input demo_eye (m_startVoltage demo_filter) (m_endVoltage demo_filter)
             = Inr (0, 1)"
    by (simp add: demo_filter_def demo_bins)
  have 4: "GetWidth demo_eye < 2 ^ 63" by (simp add: demo_eye_def)
  show ?thesis
    using minwidth_envelope [OF 1 2 demo_Refresh 3 4] demo_Refresh 3 4
    by simp
qed

text \<open>
  C10, as stated, fails. The samples are stored as \<open>float\<close>, the scalar is kept in \<open>double\<close>.
  On \<open>three_column_eye\<close> (one row of three empty columns, unit interval 1) the one scanned
  row and the scalar come from the same product, 2 columns times the time per column; the
  product is 6004799503160661 / 2^52 in \<open>double\<close>, and rounding it to \<open>float\<close> gives the
  larger 11184811 / 2^23: the sample exceeds the scalar.
\<close>

theorem minwidth_below_sample_counterexample:
  "outputs (Refresh three_column_filter) =
     Inr (Some \<lparr>m_timescale = 1, m_offsets = [- 500], m_durations = [1000],
                m_samples = [11184811 / 8388608]\<rparr>,
          Finite (6004799503160661 / 4503599627370496)) \<and>
   (6004799503160661 / 4503599627370496 :: real) < 11184811 / 8388608"
  by code_simp

lemma fs_per_pixel_nonneg:
  assumes "0 \<le> m_uiWidth din"
  shows "0 \<le> fs_per_pixel din"
proof -
  have "0 \<le> to_double (2 * m_uiWidth din)" using assms by (intro to_double_nonneg) simp
  moreover have "0 \<le> to_double (real (GetWidth din))" by (intro to_double_nonneg) simp
  ultimately have "0 \<le> to_double (2 * m_uiWidth din) / to_double (real (GetWidth din))"
    by simp
  then show ?thesis unfolding fs_per_pixel_def by (rule to_double_nonneg)
qed

lemma row_value_le_scalar_value:
  assumes "0 \<le> m_uiWidth din" and "c \<le> d"
  shows "row_value din c \<le> to_float (scalar_value din d)"
proof -
  have "to_double (real_of_int c) \<le> to_double (real_of_int d)"
    using assms(2) by (intro to_double_mono) simp
  then have "fs_per_pixel din * to_double (real_of_int c)
           \<le> fs_per_pixel din * to_double (real_of_int d)"
    using fs_per_pixel_nonneg [OF assms(1)] by (rule mult_left_mono)
  then show ?thesis
    unfolding row_value_def scalar_value_def by (intro to_float_mono to_double_mono)
qed

text \<open>
  C10, amended. After every \<open>Refresh\<close> that returns (it then has scanned at least one
  row), on a raster of non-negative unit-interval width and of width below \<open>2^63\<close>, every
  sample of the sparse waveform is less than or equal to the scalar output rounded to
  \<open>float\<close>, the precision in which the samples are stored.
\<close>

theorem minwidth_ge_samples:
  assumes "m_input0 f = Some s" and "GetInputWaveform s = Some din"
    and "Refresh f = Inr f'"
    and "0 \<le> m_uiWidth din" and "GetWidth din < 2 ^ 63"
  shows "\<exists>cap v. m_data0 f' = Some cap \<and> m_value1 f' = Finite v \<and> m_samples cap \<noteq> [] \<and>
            (\<forall>x\<in>set (m_samples cap). x \<le> to_float v)"
proof -
  from assms(3,1,2) obtain start_bin end_bin where
    bins: "row_bins s din (m_startVoltage f) (m_endVoltage f) = Inr (start_bin, end_bin)"
    by (rule Refresh_InrE)
  note sum = Refresh_summary [OF assms(3,1,2) bins]
  let ?R = "Max (closure_right din ` {start_bin..end_bin})"
  let ?L = "Min (closure_left din ` {start_bin..end_bin})"
  have cols: "closure_right din j - closure_left din j \<le> ?R - ?L"
    if "j \<in> {start_bin..end_bin}" for j
  proof -
    have "closure_right din j \<le> ?R" using that by (intro Max_ge) auto
    moreover have "?L \<le> closure_left din j" using that by (intro Min_le) auto
    ultimately show ?thesis by linarith
  qed
  have "row_width din j \<le> to_float (scalar_value din (?R - ?L))"
    if "j \<in> {start_bin..end_bin}" for j
    unfolding row_width_def using assms(4) cols [OF that] by (rule row_value_le_scalar_value)
  then have "\<forall>x\<in>set (map (row_width din) [start_bin..<Suc end_bin]).
               x \<le> to_float (scalar_value din (?R - ?L))"
    by (auto simp del: upt_Suc)
  moreover have "map (row_width din) [start_bin..<Suc end_bin] \<noteq> []" using sum(1) by simp
  ultimately show ?thesis
    using sum(2) sum(3) [OF assms(5)] by (simp del: upt_Suc)
qed

theorem minwidth_ge_samples_witness:
  "0 \<le> m_uiWidth demo_eye \<and> GetWidth demo_eye < 2 ^ 63 \<and>
   Refresh demo_filter = Inr (demo_filter\<lparr>m_data0 := Some demo_cap, m_value1 := Finite 5\<rparr>) \<and>
   m_samples demo_cap = [3, 4] \<and> to_float 5 = 5 \<and> (3 :: real) \<le> 5 \<and> (4 :: real) \<le> 5"
proof -
  have 1: "m_input0 demo_filter = Some demo_input" by (simp add: demo_filter_def)
  have 2: "GetInputWaveform demo_input = Some demo_eye" by (simp add: demo_input_def)
  have 4: "0 \<le> m_uiWidth demo_eye" "GetWidth demo_eye < 2 ^ 63"
    by (simp_all add: demo_eye_def)
  have 5: "to_float 5 = 5" by code_simp
  show ?thesis
    using minwidth_ge_samples [OF 1 2 demo_Refresh 4] demo_Refresh 4 5
    by (simp add: demo_cap_def)
qed

subsection \<open>The shape of the sparse waveform\<close>

text \<open>
  C5, as stated, fails where a row spans less than a millivolt. On \<open>fine_eye\<close> the rows
  128 and 129 are scanned, each row spans 125/256 mV, and both samples get the offset 0:
  the two samples are not strictly ordered by offset.
\<close>

theorem offsets_strict_counterexample:
  "row_bins fine_input fine_eye (m_startVoltage fine_filter) (m_endVoltage fine_filter)
     = Inr (128, 129) \<and>
   duration_mv fine_input fine_eye = 125 / 256 \<and>
   outputs (Refresh fine_filter) =
     Inr (Some \<lparr>m_timescale = 1, m_offsets = [0, 0], m_durations = [0, 0],
                m_samples = [1, 1]\<rparr>,
          Finite 1) \<and>
   \<not> sorted_wrt (<) [0, 0 :: int]"
  by code_simp

lemma row_offset_mono:
  assumes "0 \<le> d" and "j \<le> k"
  shows "row_offset d b j \<le> row_offset d b k"
proof -
  have "to_float (real j) \<le> to_float (real k)" using assms(2) by (intro to_float_mono) simp
  then have "to_float (real j) * d \<le> to_float (real k) * d"
    using assms(1) by (rule mult_right_mono)
  then have "to_float (to_float (real j) * d) + b \<le> to_float (to_float (real k) * d) + b"
    by (simp add: to_float_mono)
  then show ?thesis unfolding row_offset_def by (intro c_round_mono to_float_mono)
qed

text \<open>
  C5, amended. For every eye input with a positive voltage range and every run of
  \<open>Refresh\<close> on it that returns without undefined behaviour (both thresholds convert to
  row indices \<open>start_bin\<close> and \<open>end_bin\<close>, which a threshold half a row or more below the
  bottom of the raster does not, and the offsets fit \<open>int64_t\<close>), the sparse output
  waveform contains exactly \<open>end_bin - start_bin + 1\<close> samples, one per scanned row \<open>i\<close>,
  with offset \<open>round(i * volts_per_row_mV + bottom_mV)\<close> and duration
  \<open>round(volts_per_row_mV)\<close>, each operation evaluated in \<open>float\<close> as the code does, and the
  samples are ordered by offset: the offsets never decrease, but neighbouring samples can
  share an offset.
\<close>

theorem sparse_waveform_shape:
  assumes "m_input0 f = Some s" and "GetInputWaveform s = Some din"
    and "Refresh f = Inr f'"
    and "row_bins s din (m_startVoltage f) (m_endVoltage f) = Inr (start_bin, end_bin)"
    and "0 < GetVoltageRange s"
  shows "\<exists>cap. m_data0 f' = Some cap \<and> start_bin \<le> end_bin \<and>
           length (m_offsets cap) = end_bin - start_bin + 1 \<and>
           length (m_durations cap) = end_bin - start_bin + 1 \<and>
           length (m_samples cap) = end_bin - start_bin + 1 \<and>
           (\<forall>k < end_bin - start_bin + 1.
              m_offsets cap ! k =
                c_round (to_float (to_float (to_float (real (start_bin + k))
                                             * to_float (volts_per_row s din * 1000))
                                   + to_float (volts_at_bottom s din * 1000))) \<and>
              m_durations cap ! k = c_round (to_float (volts_per_row s din * 1000))) \<and>
           sorted (m_offsets cap)"
proof -
  let ?d = "duration_mv s din"
  let ?b = "base_mv s din"
  define offs where "offs = map (row_offset ?d ?b) [start_bin..<Suc end_bin]"
  note sum = Refresh_summary(1,2) [OF assms(3,1,2,4)]
  have d: "0 \<le> ?d" using assms(5) by (rule duration_mv_nonneg)
  have len: "length offs = end_bin - start_bin + 1"
    using sum(1) by (simp add: offs_def del: upt_Suc)
  have nth: "offs ! k = row_offset ?d ?b (start_bin + k)" if "k < end_bin - start_bin + 1" for k
  proof -
    have "start_bin + k < Suc end_bin" using that sum(1) by linarith
    then have "[start_bin..<Suc end_bin] ! k = start_bin + k" by (rule nth_upt)
    moreover have "k < length [start_bin..<Suc end_bin]"
      using that sum(1) by (simp del: upt_Suc)
    ultimately show ?thesis by (simp add: offs_def del: upt_Suc)
  qed
  have sorted: "sorted offs"
    unfolding sorted_iff_nth_mono
  proof (intro allI impI)
    fix i j assume "i \<le> j" "j < length offs"
    then have "offs ! i = row_offset ?d ?b (start_bin + i)"
      "offs ! j = row_offset ?d ?b (start_bin + j)"
      using len by (simp_all add: nth)
    moreover have "row_offset ?d ?b (start_bin + i) \<le> row_offset ?d ?b (start_bin + j)"
      using d \<open>i \<le> j\<close> by (intro row_offset_mono) simp_all
    ultimately show "offs ! i \<le> offs ! j" by (simp only:)
  qed
  have durs: "replicate (Suc end_bin - start_bin) (c_round ?d) ! k = c_round ?d"
    if "k < end_bin - start_bin + 1" for k
    using that sum(1) by simp
  have cap: "m_data0 f' = Some
           \<lparr>m_timescale = 1, m_offsets = offs,
            m_durations = replicate (Suc end_bin - start_bin) (c_round ?d),
            m_samples = map (row_width din) [start_bin..<Suc end_bin]\<rparr>"
    using sum(2) by (simp only: offs_def)
  have "\<forall>k < end_bin - start_bin + 1. offs ! k = row_offset ?d ?b (start_bin + k) \<and>
          replicate (Suc end_bin - start_bin) (c_round ?d) ! k = c_round ?d"
    using nth durs by blast
  then have "\<forall>k < end_bin - start_bin + 1.
      offs ! k = c_round (to_float (to_float (to_float (real (start_bin + k))
                                             * to_float (volts_per_row s din * 1000))
                                   + to_float (volts_at_bottom s din * 1000))) \<and>
      replicate (Suc end_bin - start_bin) (c_round ?d) ! k
        = c_round (to_float (volts_per_row s din * 1000))"
    by (simp only: row_offset_def duration_mv_def base_mv_def)
  then show ?thesis
    using cap sum(1) len sorted
    by (simp del: upt_Suc of_nat_add)
qed

theorem sparse_waveform_shape_witness:
  "0 < GetVoltageRange demo_input \<and>
   Refresh demo_filter = Inr (demo_filter\<lparr>m_data0 := Some demo_cap, m_value1 := Finite 5\<rparr>) \<and>
   row_bins demo_input demo_eye (m_startVoltage demo_filter) (m_endVoltage demo_filter)
     = Inr (0, 1) \<and>
   length (m_offsets demo_cap) = 1 - 0 + 1 \<and>
   m_offsets demo_cap ! 1 =
     c_round (to_float (to_float (to_float (real (0 + 1 :: nat))
                                  * to_float (volts_per_row demo_input demo_eye * 1000))
                        + to_float (volts_at_bottom demo_input demo_eye * 1000))) \<and>
   sorted (m_offsets demo_cap)"
proof -
  have 1: "m_input0 demo_filter = Some demo_input" by (simp add: demo_filter_def)
  have 2: "GetInputWaveform demo_input = Some demo_eye" by (simp add: demo_input_def)
  have 3: "row_bins demo_input demo_eye (m_startVoltage demo_filter) (m_endVoltage demo_filter)
             = Inr (0, 1)"
    by (simp add: demo_filter_def demo_bins)
  have 4: "0 < GetVoltageRange demo_input" by (simp add: demo_input_def)
  from sparse_waveform_shape [OF 1 2 demo_Refresh 3 4]
  obtain cap where c: "m_data0 (demo_filter\<lparr>m_data0 := Some demo_cap, m_value1 := Finite 5\<rparr>)
                         = Some cap"
    and l: "length (m_offsets cap) = 1 - 0 + 1"
    and n: "\<forall>k < 1 - 0 + 1.
              m_offsets cap ! k =
                c_round (to_float (to_float (to_float (real (0 + k))
                                             * to_float (volts_per_row demo_input demo_eye * 1000))
                                   + to_float (volts_at_bottom demo_input demo_eye * 1000))) \<and>
              m_durations cap ! k = c_round (to_float (volts_per_row demo_input demo_eye * 1000))"
    and s: "sorted (m_offsets cap)"
    by blast
  from c have cap: "cap = demo_cap" by simp
  from n have "m_offsets cap ! 1 =
                c_round (to_float (to_float (to_float (real (0 + 1 :: nat))
                                             * to_float (volts_per_row demo_input demo_eye * 1000))
                                   + to_float (volts_at_bottom demo_input demo_eye * 1000)))"
    by (elim allE [of _ 1]) simp
  then show ?thesis
    using demo_Refresh 3 4 l s unfolding cap by (simp only: simp_thms)
qed

subsection \<open>Scenario C: every column occupied except the centre\<close>

text \<open>
  C9, as stated, fails. On \<open>scenario_C_eye\<close> (four columns, all occupied except the centre
  column 2) the scan returns the edges 1 and 3, two columns apart, and the scalar output
  is 1, twice the time per column 1/2.
\<close>

theorem scenario_C_counterexample:
  "map (occupied scenario_C_eye 0) [0, 1, 2, 3] = [True, True, False, True] \<and>
   xcenter scenario_C_eye = 2 \<and>
   scan_row scenario_C_eye 0 = (1, 3) \<and>
   outputs (Refresh scenario_C_filter) = Inr (Some scenario_C_cap, Finite 1) \<and>
   time_per_column scenario_C_eye = 1 / 2"
  by code_simp

lemma closures_all_but_centre:
  assumes w: "3 \<le> GetWidth din"
    and occ: "\<forall>x\<in>{0..int (GetWidth din) - 1}. occupied din i x = (x \<noteq> xcenter din)"
  shows "closure_left din i = xcenter din - 1" and "closure_right din i = xcenter din + 1"
proof -
  let ?w = "int (GetWidth din)"
  let ?xc = "xcenter din"
  have xc: "1 \<le> ?xc" "?xc + 1 \<le> ?w - 1" using w by (simp_all add: xcenter_def)
  have L: "insert 0 {x \<in> {0..?xc}. occupied din i x} = {0..?xc - 1}"
    using xc occ by auto
  have "Max {0..?xc - 1} = ?xc - 1" using xc by (intro Max_eqI) auto
  then show "closure_left din i = ?xc - 1"
    unfolding closure_left_def L .
  have R: "insert (?w - 1) {x \<in> {?xc..?w - 1}. occupied din i x} = {?xc + 1..?w - 1}"
    using xc occ by auto
  have "Min {?xc + 1..?w - 1} = ?xc + 1" using xc by (intro Min_eqI) auto
  then show "closure_right din i = ?xc + 1"
    unfolding closure_right_def R .
qed

text \<open>Two columns take exactly twice the time per column: doubling is exact.\<close>

lemma scalar_value_2: "scalar_value din 2 = 2 * time_per_column din"
proof -
  have "scalar_value din 2 = to_double (2 * fs_per_pixel din)"
    by (simp add: scalar_value_def to_double_2 mult.commute)
  also have "\<dots> = 2 * to_double (fs_per_pixel din)" by (rule to_double_double)
  also have "to_double (fs_per_pixel din) = fs_per_pixel din"
    by (simp add: fs_per_pixel_def)
  finally show ?thesis by (simp add: time_per_column_eq)
qed

text \<open>
  C9, amended. For every eye input of width at least 3 (and below \<open>2^63\<close>) in which, in
  every scanned row, every column is occupied except the centre column, a \<open>Refresh\<close> that
  returns has found the edges at the columns next to the centre in every scanned row, so
  that \<open>closure_right - closure_left\<close> is 2 columns, and the scalar output equals exactly
  two columns' time width, \<open>2 * time_per_column\<close>.
\<close>

theorem all_but_centre_occupied:
  assumes "m_input0 f = Some s" and "GetInputWaveform s = Some din"
    and "Refresh f = Inr f'"
    and "row_bins s din (m_startVoltage f) (m_endVoltage f) = Inr (start_bin, end_bin)"
    and "3 \<le> GetWidth din" and "GetWidth din < 2 ^ 63"
    and "\<forall>i\<in>{start_bin..end_bin}. \<forall>x\<in>{0..int (GetWidth din) - 1}.
           occupied din i x = (x \<noteq> xcenter din)"
  shows "(\<forall>i\<in>{start_bin..end_bin}. scan_row din i = (xcenter din - 1, xcenter din + 1)) \<and>
         m_value1 f' = Finite (2 * time_per_column din)"
proof -
  note sum = Refresh_summary [OF assms(3,1,2,4)]
  have cl: "closure_left din i = xcenter din - 1" and cr: "closure_right din i = xcenter din + 1"
    if "i \<in> {start_bin..end_bin}" for i
    using closures_all_but_centre [OF assms(5), of i] assms(7) that by blast+
  have ne: "{start_bin..end_bin} \<noteq> {}" using sum(1) by simp
  have "closure_left din ` {start_bin..end_bin} = {xcenter din - 1}"
    "closure_right din ` {start_bin..end_bin} = {xcenter din + 1}"
    using ne cl cr by (auto simp: image_def)
  then have "m_value1 f' = Finite (scalar_value din 2)"
    using sum(3) [OF assms(6)] by simp
  then show ?thesis
    using cl cr by (simp add: scan_row_closures scalar_value_2)
qed

lemma scenario_C_Refresh:
  "Refresh scenario_C_filter =
     Inr (scenario_C_filter\<lparr>m_data0 := Some scenario_C_cap, m_value1 := Finite 1\<rparr>)"
  by code_simp

theorem all_but_centre_occupied_witness:
  "3 \<le> GetWidth scenario_C_eye \<and> GetWidth scenario_C_eye < 2 ^ 63 \<and>
   row_bins scenario_C_input scenario_C_eye
     (m_startVoltage scenario_C_filter) (m_endVoltage scenario_C_filter) = Inr (0, 0) \<and>
   map (occupied scenario_C_eye 0) [0, 1, 2, 3] = [True, True, False, True] \<and>
   xcenter scenario_C_eye = 2 \<and>
   scan_row scenario_C_eye 0 = (xcenter scenario_C_eye - 1, xcenter scenario_C_eye + 1) \<and>
   Finite 1 = Finite (2 * time_per_column scenario_C_eye)"
proof -
  have 1: "m_input0 scenario_C_filter = Some scenario_C_input"
    by (simp add: scenario_C_filter_def)
  have 2: "GetInputWaveform scenario_C_input = Some scenario_C_eye"
    by (simp add: scenario_C_input_def)
  have 3: "row_bins scenario_C_input scenario_C_eye
             (m_startVoltage scenario_C_filter) (m_endVoltage scenario_C_filter) = Inr (0, 0)"
    by code_simp
  have 4: "3 \<le> GetWidth scenario_C_eye" "GetWidth scenario_C_eye < 2 ^ 63"
    by (simp_all add: scenario_C_eye_def)
  have 5: "\<forall>i\<in>{0..0}. \<forall>x\<in>{0..int (GetWidth scenario_C_eye) - 1}.
             occupied scenario_C_eye i x = (x \<noteq> xcenter scenario_C_eye)"
    by code_simp
  have 6: "map (occupied scenario_C_eye 0) [0, 1, 2, 3] = [True, True, False, True]"
    "xcenter scenario_C_eye = 2"
    by code_simp+
  show ?thesis
    using all_but_centre_occupied [OF 1 2 scenario_C_Refresh 3 4 5] 3 4 6
    by simp
qed

end
